theory Spec2Isabelle
  imports Main
begin

section \<open>JavaScript strings\<close>

text \<open>
  A JavaScript string is a sequence of UTF-16 code units. A code unit is modelled as a
  natural number, so that the characters the source names by escape (the dashes U+2013 and
  U+2014, the quotation marks U+201C to U+201F, the Unicode white space of \<open>\s\<close>)
  are all representable; \<open>js\<close>
  turns an ASCII literal of the theory into such a string.
\<close>

type_synonym cu = nat
type_synonym jsstring = "cu list"

definition js :: "string \<Rightarrow> jsstring" where
  "js s = map of_char s"

text \<open>Decimal rendering of a non-negative integer, as a template literal renders it.\<close>

function showNat :: "nat \<Rightarrow> jsstring" where
  "showNat n = (if n < 10 then [48 + n] else showNat (n div 10) @ [48 + n mod 10])"
  by pat_completeness auto
termination
  by (relation "measure (\<lambda>n. n)") auto

declare showNat.simps [simp del]

text \<open>
  White space as \<open>String.prototype.trim\<close> and the class \<open>\s\<close> of a regular expression
  understand it: the ECMAScript WhiteSpace and LineTerminator code points.
\<close>

definition isWhiteSpace :: "cu \<Rightarrow> bool" where
  "isWhiteSpace c =
     (c = 9 \<or> c = 10 \<or> c = 11 \<or> c = 12 \<or> c = 13 \<or> c = 32 \<or> c = 160 \<or> c = 5760
      \<or> (8192 \<le> c \<and> c \<le> 8202) \<or> c = 8232 \<or> c = 8233 \<or> c = 8239 \<or> c = 8287
      \<or> c = 12288 \<or> c = 65279)"

definition trimStart :: "jsstring \<Rightarrow> jsstring" where
  "trimStart s = dropWhile isWhiteSpace s"

definition trimEnd :: "jsstring \<Rightarrow> jsstring" where
  "trimEnd s = rev (dropWhile isWhiteSpace (rev s))"

definition trim :: "jsstring \<Rightarrow> jsstring" where
  "trim s = trimEnd (trimStart s)"

text \<open>\<open>text.replace(/\s+/g, ' ')\<close>: every maximal run of white space becomes one space.\<close>

function collapseWhitespace :: "jsstring \<Rightarrow> jsstring" where
  "collapseWhitespace [] = []"
| "collapseWhitespace (c # cs) =
     (if isWhiteSpace c then 32 # collapseWhitespace (dropWhile isWhiteSpace cs)
      else c # collapseWhitespace cs)"
  by pat_completeness auto
termination
  by (relation "measure length") (auto simp: length_dropWhile_le less_Suc_eq_le)

definition normalizeWhitespace :: "jsstring \<Rightarrow> jsstring" where
  "normalizeWhitespace text = trim (collapseWhitespace text)"

section \<open>The polite fetcher (scripts/lib/fetcher.ts)\<close>

text \<open>
  The remote server is a parameter: \<open>server k\<close> is what the \<open>k\<close>-th call of
  \<open>fetch\<close> made by one invocation answers (counting from 0): \<open>None\<close> for a
  network failure, which \<open>fetch\<close> raises, or a response. What the function does besides returning is
  recorded as a trace of events, in order: the rate limiter, each call of \<open>fetch\<close>, each
  back-off sleep with its delay in milliseconds.
\<close>

record Response =
  resp_status :: nat
  resp_text :: jsstring
  resp_contentType :: "jsstring option"

record FetchResult =
  status :: nat
  body :: jsstring
  contentType :: jsstring

datatype fetch_error =
    NetworkError
  | FailedAfterRetries nat

datatype event = RateLimit | Fetch | Sleep nat

text \<open>
  The loop \<open>for (let attempt = 0; attempt <= maxRetries; attempt++)\<close> of
  \<open>fetchWithRateLimit\<close>, from a given value of \<open>attempt\<close>. Each iteration calls
  \<open>fetch\<close> once, so the \<open>attempt\<close>-th iteration receives \<open>server attempt\<close>.
\<close>

function fetchLoop ::
  "(nat \<Rightarrow> Response option) \<Rightarrow> nat \<Rightarrow> nat \<Rightarrow> event list
     \<Rightarrow> (fetch_error + FetchResult) \<times> event list" where
  "fetchLoop server maxRetries attempt tr =
     (if attempt \<le> maxRetries then
        (case server attempt of
           None \<Rightarrow> (Inl NetworkError, tr @ [Fetch])
         | Some response \<Rightarrow>
            (if resp_status response = 429 \<or> resp_status response \<ge> 500 then
               (if attempt < maxRetries then
                  fetchLoop server maxRetries (attempt + 1)
                    (tr @ [Fetch, Sleep (2 ^ (attempt + 1) * 1000)])
                else
                  (Inr \<lparr> status = resp_status response, body = resp_text response,
                         contentType = (case resp_contentType response of
                                          None \<Rightarrow> [] | Some ct \<Rightarrow> ct) \<rparr>,
                   tr @ [Fetch]))
             else
               (Inr \<lparr> status = resp_status response, body = resp_text response,
                      contentType = (case resp_contentType response of
                                       None \<Rightarrow> [] | Some ct \<Rightarrow> ct) \<rparr>,
                tr @ [Fetch])))
      else (Inl (FailedAfterRetries maxRetries), tr))"
  by pat_completeness auto
termination
  by (relation "measure (\<lambda>(server, maxRetries, attempt, tr). Suc maxRetries - attempt)") auto

declare fetchLoop.simps [simp del]

definition fetchWithRateLimitN ::
  "(nat \<Rightarrow> Response option) \<Rightarrow> nat \<Rightarrow> (fetch_error + FetchResult) \<times> event list" where
  "fetchWithRateLimitN server maxRetries = fetchLoop server maxRetries 0 [RateLimit]"

text \<open>The default argument \<open>maxRetries = 3\<close>, which every caller in the repository uses.\<close>

definition fetchWithRateLimit ::
  "(nat \<Rightarrow> Response option) \<Rightarrow> (fetch_error + FetchResult) \<times> event list" where
  "fetchWithRateLimit server = fetchWithRateLimitN server 3"

definition retryable :: "nat \<Rightarrow> bool" where
  "retryable st = (st = 429 \<or> st \<ge> 500)"

definition toResult :: "Response \<Rightarrow> FetchResult" where
  "toResult response =
     \<lparr> status = resp_status response, body = resp_text response,
       contentType = (case resp_contentType response of None \<Rightarrow> [] | Some ct \<Rightarrow> ct) \<rparr>"

definition sleeps :: "event list \<Rightarrow> nat list" where
  "sleeps tr = concat (map (\<lambda>e. case e of Sleep d \<Rightarrow> [d] | _ \<Rightarrow> []) tr)"

definition fetches :: "event list \<Rightarrow> nat" where
  "fetches tr = length (filter (\<lambda>e. e = Fetch) tr)"

definition always :: "nat \<Rightarrow> jsstring \<Rightarrow> nat \<Rightarrow> Response option" where
  "always st txt k = Some \<lparr> resp_status = st, resp_text = txt, resp_contentType = None \<rparr>"

definition thenOk :: "nat \<Rightarrow> nat \<Rightarrow> jsstring \<Rightarrow> jsstring \<Rightarrow> nat \<Rightarrow> Response option" where
  "thenOk n st bad good k =
     Some \<lparr> resp_status = (if k < n then st else 200),
           resp_text = (if k < n then bad else good), resp_contentType = None \<rparr>"


section \<open>The provision deduplicator (scripts/build-db.ts)\<close>

text \<open>
  An optional field (\<open>title?: string\<close>) is an \<open>option\<close>, \<open>None\<close> standing for
  \<open>undefined\<close> and for the \<open>null\<close> a seed file may hold; \<open>a ?? b\<close> is \<open>orElse\<close>.
  The \<open>metadata\<close> of a provision is an opaque JSON value, kept as its text. The
  fields \<open>chapter\<close> and \<open>section\<close> carry the suffix \<open>_field\<close>, their names
  being keywords here.
\<close>

record ProvisionSeed =
  provision_ref :: jsstring
  part :: "jsstring option"
  chapter_field :: "jsstring option"
  section_field :: jsstring
  title :: "jsstring option"
  content :: jsstring
  metadata :: "jsstring option"

record ProvisionDedupStats =
  duplicate_refs :: nat
  conflicting_duplicates :: nat

definition orElse :: "'a option \<Rightarrow> 'a option \<Rightarrow> 'a option" where
  "orElse a b = (case a of None \<Rightarrow> b | Some x \<Rightarrow> Some x)"

definition pickPreferredProvision :: "ProvisionSeed \<Rightarrow> ProvisionSeed \<Rightarrow> ProvisionSeed" where
  "pickPreferredProvision existing incoming =
     (let existingContent = normalizeWhitespace (content existing);
          incomingContent = normalizeWhitespace (content incoming)
      in if length incomingContent > length existingContent
         then incoming \<lparr> title := orElse (title incoming) (title existing) \<rparr>
         else existing \<lparr> title := orElse (title existing) (title incoming) \<rparr>)"

text \<open>
  A JavaScript \<open>Map\<close> keeps its keys in insertion order and \<open>set\<close> on a key already
  present replaces the value in place: an association list with \<open>mapGet\<close> and
  \<open>mapSet\<close>. \<open>Array.from(byRef.values())\<close> is \<open>map snd\<close>.
\<close>

fun mapGet :: "('k \<times> 'v) list \<Rightarrow> 'k \<Rightarrow> 'v option" where
  "mapGet [] k = None"
| "mapGet ((k', v) # m) k = (if k' = k then Some v else mapGet m k)"

fun mapSet :: "('k \<times> 'v) list \<Rightarrow> 'k \<Rightarrow> 'v \<Rightarrow> ('k \<times> 'v) list" where
  "mapSet [] k v = [(k, v)]"
| "mapSet ((k', v') # m) k v = (if k' = k then (k, v) # m else (k', v') # mapSet m k v)"

text \<open>One iteration of the loop \<open>for (const provision of provisions)\<close>.\<close>

definition dedupeStep ::
  "ProvisionSeed \<Rightarrow> (jsstring \<times> ProvisionSeed) list \<times> ProvisionDedupStats
     \<Rightarrow> (jsstring \<times> ProvisionSeed) list \<times> ProvisionDedupStats" where
  "dedupeStep provision st =
     (let byRef = fst st; stats = snd st;
          ref = trim (provision_ref provision)
      in case mapGet byRef ref of
           None \<Rightarrow> (mapSet byRef ref (provision \<lparr> provision_ref := ref \<rparr>), stats)
         | Some existing \<Rightarrow>
             (let stats1 = stats \<lparr> duplicate_refs := duplicate_refs stats + 1 \<rparr>;
                  existingContent = normalizeWhitespace (content existing);
                  incomingContent = normalizeWhitespace (content provision);
                  stats2 = (if existingContent \<noteq> incomingContent
                            then stats1 \<lparr> conflicting_duplicates :=
                                            conflicting_duplicates stats1 + 1 \<rparr>
                            else stats1)
              in (mapSet byRef ref (pickPreferredProvision existing provision), stats2)))"

fun dedupeLoop ::
  "ProvisionSeed list \<Rightarrow> (jsstring \<times> ProvisionSeed) list \<times> ProvisionDedupStats
     \<Rightarrow> (jsstring \<times> ProvisionSeed) list \<times> ProvisionDedupStats" where
  "dedupeLoop [] st = st"
| "dedupeLoop (provision # rest) st = dedupeLoop rest (dedupeStep provision st)"

definition dedupeProvisions ::
  "ProvisionSeed list \<Rightarrow> ProvisionSeed list \<times> ProvisionDedupStats" where
  "dedupeProvisions provisions =
     (let st = dedupeLoop provisions
                 ([], \<lparr> duplicate_refs = 0, conflicting_duplicates = 0 \<rparr>)
      in (map snd (fst st), snd st))"

text \<open>A seed provision with the given reference, title and content, for concrete instances.\<close>

definition exampleSeed :: "string \<Rightarrow> string option \<Rightarrow> string \<Rightarrow> ProvisionSeed" where
  "exampleSeed r t c = \<lparr> provision_ref = js r, part = None, chapter_field = None,
       section_field = js ''1'', title = map_option js t, content = js c, metadata = None \<rparr>"


section \<open>Regular expressions\<close>

text \<open>
  The patterns of the source are values of the datatype \<open>re\<close>, and \<open>rmatch\<close> is the
  backtracking matcher of ECMAScript: from a position of the input it returns every way of
  matching, as the list of end positions with their captures, in the order in which
  backtracking would try them. The head of the list is the match JavaScript reports.

  A position is the code unit before it (\<open>None\<close> at the start of the input) and the
  input that remains: the first is what \<open>^\<close> and \<open>\b\<close> look at.

  \<open>Rep min max greedy r\<close> is a quantifier (\<open>max = None\<close>: unbounded). As in the
  RepeatMatcher of the language specification, an iteration beyond \<open>min\<close> that consumes
  nothing is dropped. The bodies of the quantifiers in the source's patterns contain no
  capture group, so the reset of captures at each iteration is not modelled.

  With the flag \<open>i\<close> two code units match when their canonical forms agree. The model
  canonicalises ASCII letters only: the patterns of the source name ASCII letters, digits
  and punctuation only, and ECMAScript never canonicalises a code unit outside ASCII to
  one inside, so the two agree on these patterns.
\<close>

text \<open>
  The members of a character class: a code unit, a range, \<^verbatim>\<open>\d\<close>, \<^verbatim>\<open>\s\<close>,
  \<^verbatim>\<open>\w\<close>.
\<close>

datatype cls = CChar cu | CRange cu cu | CDigit | CSpace | CWord

datatype re =
    Eps
  | Ch cu
  | Dot
  | Set "cls list"
  | NSet "cls list"
  | Seq re re
  | Alt re re
  | Rep nat "nat option" bool re
  | Grp nat re
  | Bol
  | Eol
  | WordB
  | Look re

record flags =
  ignoreCase :: bool
  dotAll :: bool

definition isLineTerminator :: "cu \<Rightarrow> bool" where
  "isLineTerminator c = (c = 10 \<or> c = 13 \<or> c = 8232 \<or> c = 8233)"

definition isDigit :: "cu \<Rightarrow> bool" where
  "isDigit c = (48 \<le> c \<and> c \<le> 57)"

definition isWordChar :: "cu \<Rightarrow> bool" where
  "isWordChar c = ((97 \<le> c \<and> c \<le> 122) \<or> (65 \<le> c \<and> c \<le> 90) \<or> (48 \<le> c \<and> c \<le> 57) \<or> c = 95)"

definition canon :: "cu \<Rightarrow> cu" where
  "canon c = (if 97 \<le> c \<and> c \<le> 122 then c - 32 else c)"

definition swapCase :: "cu \<Rightarrow> cu" where
  "swapCase c = (if 97 \<le> c \<and> c \<le> 122 then c - 32
                 else if 65 \<le> c \<and> c \<le> 90 then c + 32 else c)"

fun clsMatch :: "bool \<Rightarrow> cls \<Rightarrow> cu \<Rightarrow> bool" where
  "clsMatch ic (CChar x) c = (if ic then canon x = canon c else x = c)"
| "clsMatch ic (CRange lo hi) c =
     ((lo \<le> c \<and> c \<le> hi) \<or> (ic \<and> lo \<le> swapCase c \<and> swapCase c \<le> hi))"
| "clsMatch ic CDigit c = isDigit c"
| "clsMatch ic CSpace c = isWhiteSpace c"
| "clsMatch ic CWord c = isWordChar c"

type_synonym pos = "cu option \<times> jsstring"
type_synonym caps = "nat \<Rightarrow> jsstring option"

fun step :: "(cu \<Rightarrow> bool) \<Rightarrow> pos \<Rightarrow> caps \<Rightarrow> (pos \<times> caps) list" where
  "step P (pv, []) c = []"
| "step P (pv, x # xs) c = (if P x then [((Some x, xs), c)] else [])"

definition consumed :: "pos \<Rightarrow> pos \<Rightarrow> jsstring" where
  "consumed p p' = take (length (snd p) - length (snd p')) (snd p)"

definition atWordBoundary :: "pos \<Rightarrow> bool" where
  "atWordBoundary p =
     ((case fst p of None \<Rightarrow> False | Some a \<Rightarrow> isWordChar a)
      \<noteq> (case snd p of [] \<Rightarrow> False | b # _ \<Rightarrow> isWordChar b))"

fun rsize :: "re \<Rightarrow> nat" where
  "rsize (Seq a b) = Suc (rsize a + rsize b)"
| "rsize (Alt a b) = Suc (rsize a + rsize b)"
| "rsize (Rep mn mx g r) = Suc (rsize r + mn)"
| "rsize (Grp n r) = Suc (rsize r)"
| "rsize (Look r) = Suc (rsize r)"
| "rsize _ = 0"

function rmatch :: "flags \<Rightarrow> re \<Rightarrow> pos \<Rightarrow> caps \<Rightarrow> (pos \<times> caps) list" where
  "rmatch f Eps p c = [(p, c)]"
| "rmatch f (Ch x) p c = step (\<lambda>y. if ignoreCase f then canon x = canon y else x = y) p c"
| "rmatch f Dot p c = step (\<lambda>y. dotAll f \<or> \<not> isLineTerminator y) p c"
| "rmatch f (Set cs) p c = step (\<lambda>y. \<exists>k \<in> set cs. clsMatch (ignoreCase f) k y) p c"
| "rmatch f (NSet cs) p c = step (\<lambda>y. \<not> (\<exists>k \<in> set cs. clsMatch (ignoreCase f) k y)) p c"
| "rmatch f (Seq a b) p c =
     concat (map (\<lambda>(p', c'). rmatch f b p' c') (rmatch f a p c))"
| "rmatch f (Alt a b) p c = rmatch f a p c @ rmatch f b p c"
| "rmatch f (Rep mn mx g r) p c =
     (if mx = Some 0 then [(p, c)]
      else if mn > 0 then
        concat (map (\<lambda>(p', c'). rmatch f (Rep (mn - 1) (map_option (\<lambda>k. k - 1) mx) g r) p' c')
                    (rmatch f r p c))
      else
        (let more = concat (map (\<lambda>(p', c').
                       if length (snd p') < length (snd p)
                       then rmatch f (Rep 0 (map_option (\<lambda>k. k - 1) mx) g r) p' c'
                       else [])
                     (rmatch f r p c))
         in if g then more @ [(p, c)] else (p, c) # more))"
| "rmatch f (Grp n r) p c =
     map (\<lambda>(p', c'). (p', c'(n := Some (consumed p p')))) (rmatch f r p c)"
| "rmatch f Bol p c = (if fst p = None then [(p, c)] else [])"
| "rmatch f Eol p c = (if snd p = [] then [(p, c)] else [])"
| "rmatch f WordB p c = (if atWordBoundary p then [(p, c)] else [])"
| "rmatch f (Look r) p c =
     (case rmatch f r p c of [] \<Rightarrow> [] | (p', c') # _ \<Rightarrow> [(p, c')])"
  by pat_completeness auto
termination
  by (relation "inv_image (less_than <*lex*> less_than)
                  (\<lambda>(f, r, p, c). (rsize r, length (snd p)))")
     auto


declare rmatch.simps [simp del]

text \<open>
  A successful match: where it starts, its captures (group 0 is the whole match) and the
  position after it. \<open>searchFrom\<close> tries each start position in turn, as
  \<open>RegExp.prototype.exec\<close> does; \<open>regexMatch\<close> is \<open>str.match(re)\<close> for a pattern
  without the flag \<open>g\<close>, and \<open>regexTest\<close> is \<open>re.test(str)\<close>.
\<close>

definition noCaps :: caps where
  "noCaps = (\<lambda>_. None)"

record jsmatch =
  m_index :: nat
  m_groups :: caps
  m_end :: pos

definition mkMatch :: "nat \<Rightarrow> pos \<Rightarrow> pos \<times> caps \<Rightarrow> jsmatch" where
  "mkMatch i p res =
     \<lparr> m_index = i, m_groups = (snd res)(0 := Some (consumed p (fst res))), m_end = fst res \<rparr>"

fun searchFrom :: "flags \<Rightarrow> re \<Rightarrow> cu option \<Rightarrow> jsstring \<Rightarrow> nat \<Rightarrow> jsmatch option" where
  "searchFrom f r pv [] i =
     (case rmatch f r (pv, []) noCaps of
        [] \<Rightarrow> None
      | res # _ \<Rightarrow> Some (mkMatch i (pv, []) res))"
| "searchFrom f r pv (x # xs) i =
     (case rmatch f r (pv, x # xs) noCaps of
        [] \<Rightarrow> searchFrom f r (Some x) xs (Suc i)
      | res # _ \<Rightarrow> Some (mkMatch i (pv, x # xs) res))"

definition regexMatch :: "flags \<Rightarrow> re \<Rightarrow> jsstring \<Rightarrow> jsmatch option" where
  "regexMatch f r s = searchFrom f r None s 0"

definition regexTest :: "flags \<Rightarrow> re \<Rightarrow> jsstring \<Rightarrow> bool" where
  "regexTest f r s = (regexMatch f r s \<noteq> None)"

text \<open>Notation for writing the patterns down.\<close>

definition seqs :: "re list \<Rightarrow> re" where
  "seqs rs = foldr Seq rs Eps"

definition chr :: "char \<Rightarrow> re" where
  "chr c = Ch (of_char c)"

definition lit :: "string \<Rightarrow> re" where
  "lit s = seqs (map chr s)"

definition star :: "re \<Rightarrow> re" where
  "star r = Rep 0 None True r"

definition plus :: "re \<Rightarrow> re" where
  "plus r = Rep 1 None True r"

definition opt :: "re \<Rightarrow> re" where
  "opt r = Rep 0 (Some 1) True r"

definition lazyPlus :: "re \<Rightarrow> re" where
  "lazyPlus r = Rep 1 None False r"

definition times :: "nat \<Rightarrow> nat \<Rightarrow> re \<Rightarrow> re" where
  "times m n r = Rep m (Some n) True r"

definition digit :: re where
  "digit = Set [CDigit]"

definition space :: re where
  "space = Set [CSpace]"

definition flags_none :: flags where
  "flags_none = \<lparr> ignoreCase = False, dotAll = False \<rparr>"

definition flags_i :: flags where
  "flags_i = \<lparr> ignoreCase = True, dotAll = False \<rparr>"

definition flags_s :: flags where
  "flags_s = \<lparr> ignoreCase = False, dotAll = True \<rparr>"

text \<open>
  Three properties of a pattern that can be read off its syntax: \<open>nonnull r\<close>, no match
  of \<open>r\<close> is empty; \<open>groupsNonnull k r\<close>, wherever group \<open>k\<close> occurs in \<open>r\<close> its body
  is \<open>nonnull\<close>; \<open>setsGroup k r\<close>, group \<open>k\<close> lies on every path through \<open>r\<close>,
  outside any quantifier or lookahead.
\<close>

fun nonnull :: "re \<Rightarrow> bool" where
  "nonnull (Ch x) = True"
| "nonnull Dot = True"
| "nonnull (Set cs) = True"
| "nonnull (NSet cs) = True"
| "nonnull (Seq a b) = (nonnull a \<or> nonnull b)"
| "nonnull (Alt a b) = (nonnull a \<and> nonnull b)"
| "nonnull (Rep mn mx g r) = (mn > 0 \<and> mx \<noteq> Some 0 \<and> nonnull r)"
| "nonnull (Grp n r) = nonnull r"
| "nonnull _ = False"

fun groupsNonnull :: "nat \<Rightarrow> re \<Rightarrow> bool" where
  "groupsNonnull k (Grp n r) = ((if n = k then nonnull r else True) \<and> groupsNonnull k r)"
| "groupsNonnull k (Seq a b) = (groupsNonnull k a \<and> groupsNonnull k b)"
| "groupsNonnull k (Alt a b) = (groupsNonnull k a \<and> groupsNonnull k b)"
| "groupsNonnull k (Rep mn mx g r) = groupsNonnull k r"
| "groupsNonnull k (Look r) = groupsNonnull k r"
| "groupsNonnull k _ = True"

fun setsGroup :: "nat \<Rightarrow> re \<Rightarrow> bool" where
  "setsGroup k (Grp n r) = (n = k \<or> setsGroup k r)"
| "setsGroup k (Seq a b) = (setsGroup k a \<or> setsGroup k b)"
| "setsGroup k (Alt a b) = (setsGroup k a \<and> setsGroup k b)"
| "setsGroup k _ = False"

text \<open>Capture \<open>k\<close> is defined and not empty.\<close>

definition capNonEmpty :: "nat \<Rightarrow> caps \<Rightarrow> bool" where
  "capNonEmpty k c = (\<exists>w. c k = Some w \<and> w \<noteq> [])"


text \<open>\<open>m\<close> is a match of \<open>r\<close> somewhere in some input.\<close>

definition isMatchOf :: "flags \<Rightarrow> re \<Rightarrow> jsmatch \<Rightarrow> bool" where
  "isMatchOf f r m = (\<exists>p res j. res \<in> set (rmatch f r p noCaps) \<and> m = mkMatch j p res)"

text \<open>
  What a match can have read. \<open>reaches p w p'\<close>: position \<open>p'\<close> lies after position
  \<open>p\<close>, with the code units \<open>w\<close> between them. \<open>mayConsume f r x\<close>: some atom of
  \<open>r\<close> outside a lookahead accepts the code unit \<open>x\<close>. \<open>mayCapture f k r x\<close>: group
  \<open>k\<close> occurs in \<open>r\<close> with a body that may consume \<open>x\<close>.
\<close>

definition reaches :: "pos \<Rightarrow> jsstring \<Rightarrow> pos \<Rightarrow> bool" where
  "reaches p w p' =
     (snd p = w @ snd p' \<and> fst p' = (if w = [] then fst p else Some (last w)))"

fun mayConsume :: "flags \<Rightarrow> re \<Rightarrow> cu \<Rightarrow> bool" where
  "mayConsume f (Ch x) y = (if ignoreCase f then canon x = canon y else x = y)"
| "mayConsume f Dot y = (dotAll f \<or> \<not> isLineTerminator y)"
| "mayConsume f (Set cs) y = (\<exists>k \<in> set cs. clsMatch (ignoreCase f) k y)"
| "mayConsume f (NSet cs) y = (\<not> (\<exists>k \<in> set cs. clsMatch (ignoreCase f) k y))"
| "mayConsume f (Seq a b) y = (mayConsume f a y \<or> mayConsume f b y)"
| "mayConsume f (Alt a b) y = (mayConsume f a y \<or> mayConsume f b y)"
| "mayConsume f (Rep mn mx g r) y = mayConsume f r y"
| "mayConsume f (Grp n r) y = mayConsume f r y"
| "mayConsume f _ y = False"

fun mayCapture :: "flags \<Rightarrow> nat \<Rightarrow> re \<Rightarrow> cu \<Rightarrow> bool" where
  "mayCapture f k (Grp n r) y = ((n = k \<and> mayConsume f r y) \<or> mayCapture f k r y)"
| "mayCapture f k (Seq a b) y = (mayCapture f k a y \<or> mayCapture f k b y)"
| "mayCapture f k (Alt a b) y = (mayCapture f k a y \<or> mayCapture f k b y)"
| "mayCapture f k (Rep mn mx g r) y = mayCapture f k r y"
| "mayCapture f k (Look r) y = mayCapture f k r y"
| "mayCapture f k _ y = False"

text \<open>
  \<open>capStep f r c c'\<close>: going from the captures \<open>c\<close> to \<open>c'\<close>, each capture is
  either left as it was or holds code units that \<open>r\<close> may capture in it.
\<close>

definition capStep :: "flags \<Rightarrow> re \<Rightarrow> caps \<Rightarrow> caps \<Rightarrow> bool" where
  "capStep f r c c' =
     (\<forall>k. c' k = c k \<or> (\<exists>v. c' k = Some v \<and> (\<forall>x \<in> set v. mayCapture f k r x)))"

section \<open>The citation grammar (src/citation/parser.ts)\<close>

text \<open>
  \<^verbatim>\<open>(?:Section|s\.?)\<close> and the section reference
  \<^verbatim>\<open>\d+(?:\(\d+\))*(?:\([a-z]\))*\<close>, which all six grammars share.
\<close>

definition sectionWord :: re where
  "sectionWord = Alt (lit ''Section'') (Seq (chr CHR ''s'') (opt (chr CHR ''.'')))"

definition sectionRef :: re where
  "sectionRef = seqs [plus digit,
                      star (seqs [chr CHR ''('', plus digit, chr CHR '')'']),
                      star (seqs [chr CHR ''('', Set [CRange 97 122], chr CHR '')''])]"

text \<open>
  \<^verbatim>\<open>/^(?:Section|s\.?)\s+(\d+(?:\(\d+\))*(?:\([a-z]\))*)\s*,?\s+(.+?)\s+(\d{4})\s*\(Act\s+(\d+)\)\s*$/i\<close>
\<close>

definition FULL_WITH_ACT_NUMBER :: re where
  "FULL_WITH_ACT_NUMBER = seqs [Bol, sectionWord, plus space, Grp 1 sectionRef, star space,
     opt (chr CHR '',''), plus space, Grp 2 (lazyPlus Dot), plus space, Grp 3 (times 4 4 digit),
     star space, lit ''(Act'', plus space, Grp 4 (plus digit), chr CHR '')'', star space, Eol]"

text \<open>
  \<^verbatim>\<open>/^(?:Section|s\.?)\s+(\d+(?:\(\d+\))*(?:\([a-z]\))*)\s*,?\s+(.+?)\s+(\d{4})\s*$/i\<close>
\<close>

definition FULL_CITATION :: re where
  "FULL_CITATION = seqs [Bol, sectionWord, plus space, Grp 1 sectionRef, star space,
     opt (chr CHR '',''), plus space, Grp 2 (lazyPlus Dot), plus space, Grp 3 (times 4 4 digit),
     star space, Eol]"

text \<open>
  \<^verbatim>\<open>/^s\.?\s+(\d+(?:\(\d+\))*(?:\([a-z]\))*)\s+(.+?)\s+(\d{4})$/i\<close>
\<close>

definition SHORT_CITATION :: re where
  "SHORT_CITATION = seqs [Bol, chr CHR ''s'', opt (chr CHR ''.''), plus space, Grp 1 sectionRef,
     plus space, Grp 2 (lazyPlus Dot), plus space, Grp 3 (times 4 4 digit), Eol]"

text \<open>
  \<^verbatim>\<open>/^(.+?)\s+(\d{4})\s*\(Act\s+(\d+)\)\s*,?\s*(?:Section|s\.?)\s*(\d+(?:\(\d+\))*(?:\([a-z]\))*)\s*$/i\<close>
\<close>

definition TRAILING_WITH_ACT_NUMBER :: re where
  "TRAILING_WITH_ACT_NUMBER = seqs [Bol, Grp 1 (lazyPlus Dot), plus space, Grp 2 (times 4 4 digit),
     star space, lit ''(Act'', plus space, Grp 3 (plus digit), chr CHR '')'', star space,
     opt (chr CHR '',''), star space, sectionWord, star space, Grp 4 sectionRef, star space, Eol]"

text \<open>
  \<^verbatim>\<open>/^(.+?)\s+(\d{4})\s*,?\s*(?:Section|s\.?)\s*(\d+(?:\(\d+\))*(?:\([a-z]\))*)\s*$/i\<close>
\<close>

definition TRAILING_SECTION :: re where
  "TRAILING_SECTION = seqs [Bol, Grp 1 (lazyPlus Dot), plus space, Grp 2 (times 4 4 digit),
     star space, opt (chr CHR '',''), star space, sectionWord, star space, Grp 3 sectionRef,
     star space, Eol]"

text \<open>
  \<^verbatim>\<open>/^(act-\d+-\d{4})\s*,?\s*(?:Section|s\.?)\s*(\d+(?:\(\d+\))*(?:\([a-z]\))*)\s*$/i\<close>
\<close>

definition ID_BASED :: re where
  "ID_BASED = seqs [Bol, Grp 1 (seqs [lit ''act-'', plus digit, chr CHR ''-'', times 4 4 digit]),
     star space, opt (chr CHR '',''), star space, sectionWord, star space, Grp 2 sectionRef,
     star space, Eol]"

text \<open>The pattern \<^verbatim>\<open>/^act-(\d+)-(\d{4})$/i\<close> applied to the identifier inside \<open>parseCitation\<close>.\<close>

definition ID_PARTS :: re where
  "ID_PARTS = seqs [Bol, lit ''act-'', Grp 1 (plus digit), chr CHR ''-'', Grp 2 (times 4 4 digit),
     Eol]"

text \<open>\<^verbatim>\<open>/^(\d+)(?:\((\d+)\))?(?:\(([a-z])\))?$/\<close>\<close>

definition SECTION_REF :: re where
  "SECTION_REF = seqs [Bol, Grp 1 (plus digit),
     opt (seqs [chr CHR ''('', Grp 2 (plus digit), chr CHR '')'']),
     opt (seqs [chr CHR ''('', Grp 3 (Set [CRange 97 122]), chr CHR '')'']), Eol]"

text \<open>
  A JavaScript number that \<open>parseInt\<close> can return: an integer or \<open>NaN\<close>. (The rounding
  of integers beyond \<open>2^53\<close> to a double is not modelled.) \<open>parseInt(s, 10)\<close> skips
  leading white space, reads an optional sign and the longest run of decimal digits, and is
  \<open>NaN\<close> when there is no digit; \<open>parseIntU\<close> also accepts \<open>undefined\<close>, for a capture
  group that did not take part in the match.
\<close>

datatype jsnum = Num int | NaN

definition parseInt :: "jsstring \<Rightarrow> jsnum" where
  "parseInt s =
     (let t = trimStart s;
          neg = (case t of [] \<Rightarrow> False | x # _ \<Rightarrow> x = 45);
          u = (case t of [] \<Rightarrow> [] | x # xs \<Rightarrow> if x = 45 \<or> x = 43 then xs else t);
          ds = takeWhile isDigit u
      in if ds = [] then NaN
         else Num ((if neg then - 1 else 1) * int (foldl (\<lambda>n d. 10 * n + (d - 48)) 0 ds)))"

definition parseIntU :: "jsstring option \<Rightarrow> jsnum" where
  "parseIntU x = (case x of None \<Rightarrow> NaN | Some s \<Rightarrow> parseInt s)"

definition showNum :: "jsnum \<Rightarrow> jsstring" where
  "showNum x = (case x of NaN \<Rightarrow> js ''NaN''
                | Num n \<Rightarrow> if n < 0 then 45 # showNat (nat (- n)) else showNat (nat n))"

text \<open>
  The interface \<open>ParsedCitation\<close> (src/types). The fields \<open>type\<close>, \<open>title\<close>,
  \<open>section\<close>, \<open>subsection\<close> and \<open>paragraph\<close> carry the suffix \<open>_c\<close>: their names
  are keywords here or fields of another record. A call of a method on \<open>undefined\<close>
  raises \<open>TypeError\<close>; \<open>SqliteError\<close> is what a statement of the database raises
  (scripts/build-db.ts).
\<close>

datatype exn = TypeError | SqliteError

record ParsedCitation =
  valid :: bool
  type_c :: jsstring
  title_c :: "jsstring option"
  act_number :: "jsnum option"
  year :: "jsnum option"
  section_c :: "jsstring option"
  subsection_c :: "jsstring option"
  paragraph_c :: "jsstring option"
  error :: "jsstring option"

text \<open>\<open>x || undefined\<close> for a capture \<open>x\<close>.\<close>

definition orUndefined :: "jsstring option \<Rightarrow> jsstring option" where
  "orUndefined x = (case x of None \<Rightarrow> None | Some s \<Rightarrow> if s = [] then None else Some s)"

definition parseSection ::
  "jsstring option \<Rightarrow> jsstring option \<Rightarrow> jsnum \<Rightarrow> jsnum option \<Rightarrow> jsstring
     \<Rightarrow> exn + ParsedCitation" where
  "parseSection sectionStrU titleU yr actNumber ty =
     (case sectionStrU of
        None \<Rightarrow> Inl TypeError
      | Some sectionStr \<Rightarrow>
         (case regexMatch flags_none SECTION_REF sectionStr of
            None \<Rightarrow>
              Inr \<lparr> valid = True, type_c = ty, title_c = map_option trim titleU,
                    act_number = actNumber, year = Some yr, section_c = Some sectionStr,
                    subsection_c = None, paragraph_c = None, error = None \<rparr>
          | Some sectionMatch \<Rightarrow>
              Inr \<lparr> valid = True, type_c = ty, title_c = map_option trim titleU,
                    act_number = actNumber, year = Some yr,
                    section_c = m_groups sectionMatch 1,
                    subsection_c = orUndefined (m_groups sectionMatch 2),
                    paragraph_c = orUndefined (m_groups sectionMatch 3), error = None \<rparr>))"

definition invalidCitation :: "jsstring \<Rightarrow> ParsedCitation" where
  "invalidCitation trimmed =
     \<lparr> valid = False, type_c = js ''unknown'', title_c = None, act_number = None,
       year = None, section_c = None, subsection_c = None, paragraph_c = None,
       error = Some (js ''Could not parse Ghana citation: \"'' @ trimmed @ js ''\"'') \<rparr>"

text \<open>
  \<open>parseCitation\<close>. The chain of \<open>if (match) return ...\<close> is a nest of case
  distinctions; \<open>parseAfterId\<close> is the part of the function below the ID-based branch,
  which runs when that branch is left without a \<open>return\<close>.
\<close>

definition parseAfterId :: "jsstring \<Rightarrow> exn + ParsedCitation" where
  "parseAfterId trimmed =
     (case regexMatch flags_i FULL_WITH_ACT_NUMBER trimmed of
        Some m \<Rightarrow> parseSection (m_groups m 1) (m_groups m 2) (parseIntU (m_groups m 3))
                    (Some (parseIntU (m_groups m 4))) (js ''act'')
      | None \<Rightarrow>
     (case regexMatch flags_i FULL_CITATION trimmed of
        Some m \<Rightarrow> parseSection (m_groups m 1) (m_groups m 2) (parseIntU (m_groups m 3))
                    None (js ''act'')
      | None \<Rightarrow>
     (case regexMatch flags_i SHORT_CITATION trimmed of
        Some m \<Rightarrow> parseSection (m_groups m 1) (m_groups m 2) (parseIntU (m_groups m 3))
                    None (js ''act'')
      | None \<Rightarrow>
     (case regexMatch flags_i TRAILING_WITH_ACT_NUMBER trimmed of
        Some m \<Rightarrow> parseSection (m_groups m 4) (m_groups m 1) (parseIntU (m_groups m 2))
                    (Some (parseIntU (m_groups m 3))) (js ''act'')
      | None \<Rightarrow>
     (case regexMatch flags_i TRAILING_SECTION trimmed of
        Some m \<Rightarrow> parseSection (m_groups m 3) (m_groups m 1) (parseIntU (m_groups m 2))
                    None (js ''act'')
      | None \<Rightarrow> Inr (invalidCitation trimmed))))))"

definition parseCitation :: "jsstring \<Rightarrow> exn + ParsedCitation" where
  "parseCitation citation =
     (let trimmed = trim citation
      in case regexMatch flags_i ID_BASED trimmed of
           None \<Rightarrow> parseAfterId trimmed
         | Some m \<Rightarrow>
            (case m_groups m 1 of
               None \<Rightarrow> Inl TypeError
             | Some idStr \<Rightarrow>
                (case regexMatch flags_i ID_PARTS idStr of
                   None \<Rightarrow> parseAfterId trimmed
                 | Some idParts \<Rightarrow>
                     parseSection (m_groups m 2) None (parseIntU (m_groups idParts 2))
                       (Some (parseIntU (m_groups idParts 1))) (js ''act''))))"

section \<open>The citation formatter (src/citation/formatter.ts)\<close>

text \<open>
  The type \<open>CitationFormat\<close>; \<open>otherFormat\<close> stands for any other value, which the
  \<open>default\<close> branch of the \<open>switch\<close> receives. A string is truthy when it is defined
  and not empty, a number when it is defined, not \<open>NaN\<close> and not zero.
\<close>

datatype CitationFormat = full | short | pinpoint | otherFormat

definition truthyStr :: "jsstring option \<Rightarrow> bool" where
  "truthyStr x = (case x of None \<Rightarrow> False | Some s \<Rightarrow> s \<noteq> [])"

definition truthyNum :: "jsnum option \<Rightarrow> bool" where
  "truthyNum x = (case x of None \<Rightarrow> False | Some NaN \<Rightarrow> False | Some (Num n) \<Rightarrow> n \<noteq> 0)"

definition strOrEmpty :: "jsstring option \<Rightarrow> jsstring" where
  "strOrEmpty x = (case x of None \<Rightarrow> [] | Some s \<Rightarrow> s)"

definition numOrEmpty :: "jsnum option \<Rightarrow> jsstring" where
  "numOrEmpty x = (case x of None \<Rightarrow> [] | Some n \<Rightarrow> showNum n)"

definition buildPinpoint :: "ParsedCitation \<Rightarrow> jsstring" where
  "buildPinpoint parsed =
     (let ref0 = strOrEmpty (section_c parsed);
          ref1 = (if truthyStr (subsection_c parsed)
                  then ref0 @ js ''('' @ strOrEmpty (subsection_c parsed) @ js '')'' else ref0);
          ref2 = (if truthyStr (paragraph_c parsed)
                  then ref1 @ js ''('' @ strOrEmpty (paragraph_c parsed) @ js '')'' else ref1)
      in ref2)"

definition formatCitation :: "ParsedCitation \<Rightarrow> CitationFormat \<Rightarrow> jsstring" where
  "formatCitation parsed format =
     (if \<not> valid parsed \<or> \<not> truthyStr (section_c parsed) then []
      else
        (let pinpoint_ref = buildPinpoint parsed;
             actSuffix = (if truthyNum (act_number parsed)
                          then js '' (Act '' @ numOrEmpty (act_number parsed) @ js '')'' else [])
         in case format of
              full \<Rightarrow> trim (js ''Section '' @ pinpoint_ref @ js '', '' @ strOrEmpty (title_c parsed)
                             @ js '' '' @ numOrEmpty (year parsed) @ actSuffix)
            | short \<Rightarrow> trim (js ''s. '' @ pinpoint_ref @ js '', '' @ strOrEmpty (title_c parsed)
                              @ js '' '' @ numOrEmpty (year parsed))
            | pinpoint \<Rightarrow> js ''s. '' @ pinpoint_ref
            | otherFormat \<Rightarrow>
                trim (js ''Section '' @ pinpoint_ref @ js '', '' @ strOrEmpty (title_c parsed)
                      @ js '' '' @ numOrEmpty (year parsed) @ actSuffix)))"


section \<open>The citation validator (src/citation/validator.ts)\<close>

text \<open>
  The database is a parameter, seen through the three prepared statements the validator
  runs: the document with a given act number and year, the document whose title is
  \<open>LIKE\<close> a pattern, and the existence of a provision of a document (the bound
  parameters being the provision reference, the pinpoint and the flag that allows a prefix
  match). Each statement run is recorded, in order, so that a result comes with the list
  of the lookups made for it.
\<close>

record DocumentRow =
  doc_id :: jsstring
  doc_title :: jsstring
  doc_status :: jsstring

record Database =
  documentByActNumber :: "jsnum option \<Rightarrow> jsnum option \<Rightarrow> DocumentRow option"
  documentByTitleLike :: "jsstring \<Rightarrow> DocumentRow option"
  provisionRow :: "jsstring \<Rightarrow> jsstring \<Rightarrow> jsstring \<Rightarrow> bool \<Rightarrow> bool"

datatype query =
    SelectDocumentByActNumber "jsnum option" "jsnum option"
  | SelectDocumentByTitle jsstring
  | SelectProvision jsstring jsstring jsstring bool

record ValidationResult =
  citation :: ParsedCitation
  document_exists :: bool
  provision_exists :: bool
  document_title :: "jsstring option"
  status_v :: "jsstring option"
  warnings :: "jsstring list"

text \<open>A value inside a template literal: \<open>undefined\<close> is rendered as the word.\<close>

definition strU :: "jsstring option \<Rightarrow> jsstring" where
  "strU x = (case x of None \<Rightarrow> js ''undefined'' | Some s \<Rightarrow> s)"

definition numU :: "jsnum option \<Rightarrow> jsstring" where
  "numU x = (case x of None \<Rightarrow> js ''undefined'' | Some n \<Rightarrow> showNum n)"

definition validateParsed ::
  "Database \<Rightarrow> ParsedCitation \<Rightarrow> ValidationResult \<times> query list" where
  "validateParsed db parsed =
     (if \<not> valid parsed then
        (\<lparr> citation = parsed, document_exists = False, provision_exists = False,
           document_title = None, status_v = None,
           warnings = [case error parsed of
                         None \<Rightarrow> js ''Invalid citation format'' | Some e \<Rightarrow> e] \<rparr>,
         [])
      else
        (let byNumber =
               (if truthyNum (act_number parsed)
                then (documentByActNumber db (act_number parsed) (year parsed),
                      [SelectDocumentByActNumber (act_number parsed) (year parsed)])
                else (None, []));
             pat = js ''%'' @ strU (title_c parsed) @ js ''%'' @ numOrEmpty (year parsed) @ js ''%'';
             found =
               (if fst byNumber = None \<and> truthyStr (title_c parsed)
                then (documentByTitleLike db pat, snd byNumber @ [SelectDocumentByTitle pat])
                else byNumber)
         in case fst found of
              None \<Rightarrow>
                (let identifier =
                       (if truthyNum (act_number parsed)
                        then js ''Act '' @ numU (act_number parsed) @ js '' ('' @ numU (year parsed)
                             @ js '')''
                        else strU (title_c parsed) @ js '' '' @ numU (year parsed))
                 in (\<lparr> citation = parsed, document_exists = False, provision_exists = False,
                        document_title = None, status_v = None,
                        warnings = [js ''Document \"'' @ identifier
                                    @ js ''\" not found in database''] \<rparr>,
                     snd found))
            | Some doc \<Rightarrow>
                (let warnings0 = (if doc_status doc = js ''repealed''
                                  then [js ''This statute has been repealed''] else [])
                 in if truthyStr (section_c parsed) then
                      (let pinpoint_ref =
                             strOrEmpty (section_c parsed)
                             @ (if truthyStr (subsection_c parsed)
                                then js ''('' @ strOrEmpty (subsection_c parsed) @ js '')'' else [])
                             @ (if truthyStr (paragraph_c parsed)
                                then js ''('' @ strOrEmpty (paragraph_c parsed) @ js '')'' else []);
                           provisionRef = js ''s'' @ pinpoint_ref;
                           allowPrefixMatch =
                             (subsection_c parsed = None \<and> paragraph_c parsed = None);
                           provisionExists =
                             provisionRow db (doc_id doc) provisionRef pinpoint_ref allowPrefixMatch;
                           warnings1 =
                             (if \<not> provisionExists
                              then warnings0 @ [js ''Section '' @ pinpoint_ref @ js '' not found in ''
                                                @ doc_title doc]
                              else warnings0)
                       in (\<lparr> citation = parsed, document_exists = True,
                              provision_exists = provisionExists,
                              document_title = Some (doc_title doc),
                              status_v = Some (doc_status doc), warnings = warnings1 \<rparr>,
                           snd found @ [SelectProvision (doc_id doc) provisionRef pinpoint_ref
                                          allowPrefixMatch]))
                    else
                      (\<lparr> citation = parsed, document_exists = True, provision_exists = False,
                          document_title = Some (doc_title doc),
                          status_v = Some (doc_status doc), warnings = warnings0 \<rparr>,
                       snd found))))"

definition validateCitation ::
  "Database \<Rightarrow> jsstring \<Rightarrow> exn + ValidationResult \<times> query list" where
  "validateCitation db citationStr =
     (case parseCitation citationStr of
        Inl e \<Rightarrow> Inl e
      | Inr parsed \<Rightarrow> Inr (validateParsed db parsed))"

text \<open>A database without any document, for concrete instances.\<close>

definition emptyDatabase :: Database where
  "emptyDatabase =
     \<lparr> documentByActNumber = (\<lambda>n y. None), documentByTitleLike = (\<lambda>p. None),
       provisionRow = (\<lambda>d r p a. False) \<rparr>"

section \<open>The six grammars as an ordered list\<close>

text \<open>
  The specification describes the parser as an ordered list of grammars, each a pattern
  with its decomposer, tried in order until one applies. These definitions follow that
  description, to be compared with \<open>parseCitation\<close>: a grammar returns \<open>None\<close> when it
  does not apply.
\<close>

type_synonym grammar = "jsstring \<Rightarrow> (exn + ParsedCitation) option"

definition idBasedGrammar :: grammar where
  "idBasedGrammar t =
     (case regexMatch flags_i ID_BASED t of
        None \<Rightarrow> None
      | Some m \<Rightarrow>
         (case m_groups m 1 of
            None \<Rightarrow> Some (Inl TypeError)
          | Some idStr \<Rightarrow>
             (case regexMatch flags_i ID_PARTS idStr of
                None \<Rightarrow> None
              | Some idParts \<Rightarrow>
                  Some (parseSection (m_groups m 2) None (parseIntU (m_groups idParts 2))
                          (Some (parseIntU (m_groups idParts 1))) (js ''act'')))))"

definition fullWithNumberGrammar :: grammar where
  "fullWithNumberGrammar t =
     map_option (\<lambda>m. parseSection (m_groups m 1) (m_groups m 2) (parseIntU (m_groups m 3))
                       (Some (parseIntU (m_groups m 4))) (js ''act''))
       (regexMatch flags_i FULL_WITH_ACT_NUMBER t)"

definition fullGrammar :: grammar where
  "fullGrammar t =
     map_option (\<lambda>m. parseSection (m_groups m 1) (m_groups m 2) (parseIntU (m_groups m 3))
                       None (js ''act''))
       (regexMatch flags_i FULL_CITATION t)"

definition shortGrammar :: grammar where
  "shortGrammar t =
     map_option (\<lambda>m. parseSection (m_groups m 1) (m_groups m 2) (parseIntU (m_groups m 3))
                       None (js ''act''))
       (regexMatch flags_i SHORT_CITATION t)"

definition trailingWithNumberGrammar :: grammar where
  "trailingWithNumberGrammar t =
     map_option (\<lambda>m. parseSection (m_groups m 4) (m_groups m 1) (parseIntU (m_groups m 2))
                       (Some (parseIntU (m_groups m 3))) (js ''act''))
       (regexMatch flags_i TRAILING_WITH_ACT_NUMBER t)"

definition trailingGrammar :: grammar where
  "trailingGrammar t =
     map_option (\<lambda>m. parseSection (m_groups m 3) (m_groups m 1) (parseIntU (m_groups m 2))
                       None (js ''act''))
       (regexMatch flags_i TRAILING_SECTION t)"

fun firstMatch :: "grammar list \<Rightarrow> jsstring \<Rightarrow> (exn + ParsedCitation) option" where
  "firstMatch [] t = None"
| "firstMatch (g # gs) t = (case g t of Some r \<Rightarrow> Some r | None \<Rightarrow> firstMatch gs t)"

definition grammarsInPriorityOrder :: "grammar list" where
  "grammarsInPriorityOrder =
     [idBasedGrammar, fullWithNumberGrammar, fullGrammar, shortGrammar,
      trailingWithNumberGrammar, trailingGrammar]"

definition parseByPriority :: "jsstring \<Rightarrow> exn + ParsedCitation" where
  "parseByPriority citationStr =
     (let trimmed = trim citationStr
      in case firstMatch grammarsInPriorityOrder trimmed of
           Some r \<Rightarrow> r
         | None \<Rightarrow> Inr (invalidCitation trimmed))"

text \<open>
  What a result of the parser for trimmed input \<open>t\<close> can be: no exception; if valid, a
  section that is defined and not empty; if invalid, the diagnostic record for \<open>t\<close>.
\<close>

definition parseOutcome :: "jsstring \<Rightarrow> exn + ParsedCitation \<Rightarrow> bool" where
  "parseOutcome t res =
     (\<exists>p. res = Inr p \<and>
        (if valid p then (\<exists>v. section_c p = Some v \<and> v \<noteq> []) else p = invalidCitation t))"


section \<open>The cross-reference extractor (scripts/build-db.ts)\<close>

text \<open>
  A function of the source can return, raise, or run for ever. The loop
  \<^verbatim>\<open>while ((match = pattern.exec(text)) !== null) { ... }\<close> over a pattern with the
  flag \<open>g\<close> is \<open>execLoop\<close>: \<open>exec\<close> searches from \<open>lastIndex\<close> and moves
  \<open>lastIndex\<close> to the end of the match, so a match that is empty is found again and
  again, and the loop does not end; that case is the value \<open>Diverges\<close>.
\<close>

datatype 'a outcome = Returns 'a | Throws exn | Diverges

function execLoop ::
  "flags \<Rightarrow> re \<Rightarrow> (jsmatch \<Rightarrow> 's \<Rightarrow> 's outcome) \<Rightarrow> cu option \<Rightarrow> jsstring \<Rightarrow> nat \<Rightarrow> 's
     \<Rightarrow> 's outcome" where
  "execLoop f r loopBody pv rest lastIndex st =
     (case searchFrom f r pv rest lastIndex of
        None \<Rightarrow> Returns st
      | Some m \<Rightarrow>
         (case loopBody m st of
            Returns st' \<Rightarrow>
              (if length (snd (m_end m)) < length rest
               then execLoop f r loopBody (fst (m_end m)) (snd (m_end m))
                      (lastIndex + (length rest - length (snd (m_end m)))) st'
               else Diverges)
          | Throws e \<Rightarrow> Throws e
          | Diverges \<Rightarrow> Diverges))"
  by pat_completeness auto
termination
  by (relation "measure (\<lambda>(f, r, loopBody, pv, rest, lastIndex, st). length rest)") auto

declare execLoop.simps [simp del]

definition execAll ::
  "flags \<Rightarrow> re \<Rightarrow> (jsmatch \<Rightarrow> 's \<Rightarrow> 's outcome) \<Rightarrow> jsstring \<Rightarrow> 's \<Rightarrow> 's outcome" where
  "execAll f r loopBody text st = execLoop f r loopBody None text 0 st"

text \<open>
  \<open>toLowerCase\<close> and \<open>toUpperCase\<close> on ASCII letters. The source applies them to
  captures of \<^verbatim>\<open>(Regulation|Directive)\<close> and \<^verbatim>\<open>(EU|EC|EEC|Euratom)\<close> only,
  which hold ASCII letters.
\<close>

definition toLowerCase :: "jsstring \<Rightarrow> jsstring" where
  "toLowerCase s = map (\<lambda>c. if 65 \<le> c \<and> c \<le> 90 then c + 32 else c) s"

definition toUpperCase :: "jsstring \<Rightarrow> jsstring" where
  "toUpperCase s = map (\<lambda>c. if 97 \<le> c \<and> c \<le> 122 then c - 32 else c) s"

text \<open>\<open>text.slice(start, end)\<close> for \<open>0 \<le> start\<close> and \<open>end \<le> text.length\<close>.\<close>

definition slice :: "jsstring \<Rightarrow> nat \<Rightarrow> nat \<Rightarrow> jsstring" where
  "slice text start end = take (end - start) (drop start text)"

record ExtractedEUReference =
  ref_type :: jsstring
  ref_community :: jsstring
  ref_year :: jsnum
  ref_number :: jsnum
  euDocumentId :: jsstring
  euArticle :: "jsstring option"
  fullCitation :: jsstring
  referenceContext :: jsstring
  referenceType :: jsstring

definition normalizeEuYear :: "jsstring option \<Rightarrow> jsnum" where
  "normalizeEuYear rawYearU =
     (case parseIntU rawYearU of
        NaN \<Rightarrow> Num 0
      | Num parsed \<Rightarrow>
          if length (strOrEmpty rawYearU) = 2
          then (if parsed \<ge> 50 then Num (1900 + parsed) else Num (2000 + parsed))
          else Num parsed)"

definition buildEuDocumentId :: "jsstring \<Rightarrow> jsnum \<Rightarrow> jsnum \<Rightarrow> jsstring" where
  "buildEuDocumentId ty yr n = ty @ js '':'' @ showNum yr @ js ''/'' @ showNum n"

text \<open>
  \<^verbatim>\<open>/\b(implement|implemented|implements|transpos|supplement|complies?|gives effect)\b/i\<close>
\<close>

definition IMPLEMENTS_PATTERN :: re where
  "IMPLEMENTS_PATTERN = seqs [WordB,
     Grp 1 (Alt (lit ''implement'') (Alt (lit ''implemented'') (Alt (lit ''implements'')
           (Alt (lit ''transpos'') (Alt (lit ''supplement'')
           (Alt (Seq (lit ''complie'') (opt (chr CHR ''s''))) (lit ''gives effect''))))))),
     WordB]"

definition inferReferenceType :: "jsstring \<Rightarrow> jsstring" where
  "inferReferenceType context =
     (if regexTest flags_i IMPLEMENTS_PATTERN context then js ''implements''
      else js ''references'')"

text \<open>\<^verbatim>\<open>/\bArticle\s+(\d+[A-Za-z]?(?:\(\d+\))?)/i\<close>\<close>

definition ARTICLE_PATTERN :: re where
  "ARTICLE_PATTERN = seqs [WordB, lit ''Article'', plus space,
     Grp 1 (seqs [plus digit, opt (Set [CRange 65 90, CRange 97 122]),
                  opt (seqs [chr CHR ''('', plus digit, chr CHR '')''])])]"

definition extractArticleReference :: "jsstring \<Rightarrow> jsstring option" where
  "extractArticleReference context =
     (case regexMatch flags_i ARTICLE_PATTERN context of
        None \<Rightarrow> None
      | Some m \<Rightarrow> m_groups m 1)"

definition normalizeCommunity :: "jsstring option \<Rightarrow> jsstring" where
  "normalizeCommunity v =
     (if \<not> truthyStr v then js ''EU''
      else (let upper = toUpperCase (strOrEmpty v)
            in if upper = js ''EC'' then js ''EC''
               else if upper = js ''EEC'' then js ''EEC''
               else if upper = js ''EURATOM'' then js ''Euratom''
               else if upper = js ''AU'' then js ''AU''
               else if upper = js ''ECOWAS'' then js ''ECOWAS''
               else js ''EU''))"

text \<open>
  The three standard patterns, in the order of the array \<open>euPatterns\<close>:

  \<^verbatim>\<open>/\b(Regulation|Directive)\s*\((EU|EC|EEC|Euratom)\)\s*(?:No\.?\s*)?(\d{2,4})\/(\d{1,4})\b/gi\<close>

  \<^verbatim>\<open>/\b(Regulation|Directive)\s*(?:No\.?\s*)?(\d{2,4})\/(\d{1,4})\/(EU|EC|EEC|Euratom)\b/gi\<close>

  \<^verbatim>\<open>/\b(Regulation|Directive)\s*(?:No\.?\s*)?(\d{2,4})\/(\d{1,4})\b/gi\<close>
\<close>

definition instrumentWord :: re where
  "instrumentWord = Alt (lit ''Regulation'') (lit ''Directive'')"

definition communityWord :: re where
  "communityWord = Alt (lit ''EU'') (Alt (lit ''EC'') (Alt (lit ''EEC'') (lit ''Euratom'')))"

definition optionalNo :: re where
  "optionalNo = opt (seqs [lit ''No'', opt (chr CHR ''.''), star space])"

definition euPattern0 :: re where
  "euPattern0 = seqs [WordB, Grp 1 instrumentWord, star space, chr CHR ''('', Grp 2 communityWord,
     chr CHR '')'', star space, optionalNo, Grp 3 (times 2 4 digit), chr CHR ''/'',
     Grp 4 (times 1 4 digit), WordB]"

definition euPattern1 :: re where
  "euPattern1 = seqs [WordB, Grp 1 instrumentWord, star space, optionalNo,
     Grp 2 (times 2 4 digit), chr CHR ''/'', Grp 3 (times 1 4 digit), chr CHR ''/'',
     Grp 4 communityWord, WordB]"

definition euPattern2 :: re where
  "euPattern2 = seqs [WordB, Grp 1 instrumentWord, star space, optionalNo,
     Grp 2 (times 2 4 digit), chr CHR ''/'', Grp 3 (times 1 4 digit), WordB]"

text \<open>
  The state of the two loops of \<open>extractEuReferences\<close>: the array \<open>refs\<close> and the set
  \<open>seen\<close> of the keys already taken.
\<close>

type_synonym extraction = "ExtractedEUReference list \<times> jsstring set"

definition contextOf :: "jsstring \<Rightarrow> jsmatch \<Rightarrow> jsstring" where
  "contextOf text m =
     (let start = m_index m - 120;
          end = min (length text) (m_index m + length (strOrEmpty (m_groups m 0)) + 120)
      in trim (collapseWhitespace (slice text start end)))"

text \<open>
  The body of the first loop for the pattern of index \<open>i\<close> in \<open>euPatterns\<close>, which
  decides where the year, the number and the community are captured. \<open>continue\<close> is
  returning the state unchanged. In \<open>contextOf\<close> the subtraction on natural numbers
  stops at 0, which is \<open>Math.max(0, match.index - 120)\<close>.
\<close>

definition euBody :: "nat \<Rightarrow> jsstring \<Rightarrow> jsmatch \<Rightarrow> extraction \<Rightarrow> extraction outcome" where
  "euBody i text m st =
     (case m_groups m 1 of
        None \<Rightarrow> Throws TypeError
      | Some typeRaw \<Rightarrow>
         (let ty = toLowerCase typeRaw;
              communityRaw = (if i = 0 then m_groups m 2 else if i = 1 then m_groups m 4 else None);
              rawYear = (if i = 0 then m_groups m 3 else m_groups m 2);
              rawNumber = (if i = 0 then m_groups m 4 else m_groups m 3);
              yr = normalizeEuYear rawYear;
              n = parseIntU rawNumber
          in if (case yr of NaN \<Rightarrow> False | Num y \<Rightarrow> y \<le> 0)
                \<or> (case n of NaN \<Rightarrow> True | Num k \<Rightarrow> k \<le> 0)
             then Returns st
             else
              (let community = normalizeCommunity communityRaw;
                   context = contextOf text m;
                   article = extractArticleReference context;
                   refType = inferReferenceType context;
                   docId = buildEuDocumentId ty yr n;
                   dedupeKey = docId @ js '':'' @ strOrEmpty article
               in if dedupeKey \<in> snd st then Returns st
                  else Returns
                    (fst st @
                       [\<lparr> ref_type = ty, ref_community = community, ref_year = yr,
                          ref_number = n, euDocumentId = docId, euArticle = article,
                          fullCitation = strU (m_groups m 0), referenceContext = context,
                          referenceType = refType \<rparr>],
                     insert dedupeKey (snd st)))))"

text \<open>
  The five named instruments of \<open>conventionPatterns\<close>, each with its fixed identity:

  \<^verbatim>\<open>/\b(?:GDPR|General Data Protection Regulation)\b/gi\<close>

  \<^verbatim>\<open>/\bEU\s*(?:Data Protection\s*)?Directive\s*95\/46\b/gi\<close>

  \<^verbatim>\<open>/\b(?:Malabo Convention|AU Convention on Cyber Security|African Union Convention on Cyber Security and Personal Data Protection)\b/gi\<close>

  \<^verbatim>\<open>/\b(?:Budapest Convention|Convention on Cybercrime)\b/gi\<close>

  \<^verbatim>\<open>/\bConvention\s*108\b/gi\<close>
\<close>

record ConventionPattern =
  cp_pattern :: re
  cp_id :: jsstring
  cp_type :: jsstring
  cp_community :: jsstring
  cp_year :: jsnum
  cp_number :: jsnum

definition conventionPatterns :: "ConventionPattern list" where
  "conventionPatterns =
     [\<lparr> cp_pattern = seqs [WordB, Alt (lit ''GDPR'') (lit ''General Data Protection Regulation''),
                            WordB],
        cp_id = js ''regulation:2016/679'', cp_type = js ''regulation'',
        cp_community = js ''EU'', cp_year = Num 2016, cp_number = Num 679 \<rparr>,
      \<lparr> cp_pattern = seqs [WordB, lit ''EU'', star space,
                            opt (seqs [lit ''Data Protection'', star space]),
                            lit ''Directive'', star space, lit ''95/46'', WordB],
        cp_id = js ''directive:1995/46'', cp_type = js ''directive'',
        cp_community = js ''EC'', cp_year = Num 1995, cp_number = Num 46 \<rparr>,
      \<lparr> cp_pattern = seqs [WordB,
           Alt (lit ''Malabo Convention'')
             (Alt (lit ''AU Convention on Cyber Security'')
                  (lit ''African Union Convention on Cyber Security and Personal Data Protection'')),
           WordB],
        cp_id = js ''directive:2014/1'', cp_type = js ''directive'',
        cp_community = js ''AU'', cp_year = Num 2014, cp_number = Num 1 \<rparr>,
      \<lparr> cp_pattern = seqs [WordB, Alt (lit ''Budapest Convention'') (lit ''Convention on Cybercrime''),
                            WordB],
        cp_id = js ''directive:2001/185'', cp_type = js ''directive'',
        cp_community = js ''EU'', cp_year = Num 2001, cp_number = Num 185 \<rparr>,
      \<lparr> cp_pattern = seqs [WordB, lit ''Convention'', star space, lit ''108'', WordB],
        cp_id = js ''directive:1981/108'', cp_type = js ''directive'',
        cp_community = js ''EU'', cp_year = Num 1981, cp_number = Num 108 \<rparr>]"

definition conventionBody ::
  "ConventionPattern \<Rightarrow> jsstring \<Rightarrow> jsmatch \<Rightarrow> extraction \<Rightarrow> extraction outcome" where
  "conventionBody cp text m st =
     (let dedupeKey = cp_id cp @ js '':''
      in if dedupeKey \<in> snd st then Returns st
         else
          (let context = contextOf text m;
               refType = inferReferenceType context
           in Returns
                (fst st @
                   [\<lparr> ref_type = cp_type cp, ref_community = cp_community cp,
                      ref_year = cp_year cp, ref_number = cp_number cp,
                      euDocumentId = cp_id cp, euArticle = None,
                      fullCitation = strU (m_groups m 0), referenceContext = context,
                      referenceType = refType \<rparr>],
                 insert dedupeKey (snd st))))"

text \<open>Running one statement after another, the first that does not return deciding.\<close>

definition andThen :: "'a outcome \<Rightarrow> ('a \<Rightarrow> 'b outcome) \<Rightarrow> 'b outcome" where
  "andThen x k = (case x of Returns v \<Rightarrow> k v | Throws e \<Rightarrow> Throws e | Diverges \<Rightarrow> Diverges)"

fun conventionLoops :: "ConventionPattern list \<Rightarrow> jsstring \<Rightarrow> extraction \<Rightarrow> extraction outcome" where
  "conventionLoops [] text st = Returns st"
| "conventionLoops (cp # cps) text st =
     andThen (execAll flags_i (cp_pattern cp) (conventionBody cp text) text st)
             (conventionLoops cps text)"

definition extractEuReferences :: "jsstring \<Rightarrow> ExtractedEUReference list outcome" where
  "extractEuReferences text =
     (if text = [] \<or> length (trim text) = 0 then Returns []
      else
        andThen (execAll flags_i euPattern0 (euBody 0 text) text ([], {})) (\<lambda>st0.
        andThen (execAll flags_i euPattern1 (euBody 1 text) text st0) (\<lambda>st1.
        andThen (execAll flags_i euPattern2 (euBody 2 text) text st1) (\<lambda>st2.
        andThen (conventionLoops conventionPatterns text st2) (\<lambda>st3.
        Returns (fst st3))))))"

text \<open>The key by which one call deduplicates: the instrument and the article, or nothing.\<close>

definition dedupeKeyOf :: "ExtractedEUReference \<Rightarrow> jsstring" where
  "dedupeKeyOf r = euDocumentId r @ js '':'' @ strOrEmpty (euArticle r)"

text \<open>
  For comparison with \<open>extractEuReferences\<close>: every match and what the reading
  "one reference for each pair of instrument and article-or-empty, the first match of the
  pair, later ones dropped" makes of them.

  \<open>euCandidate\<close> and \<open>conventionCandidate\<close> are the reference that the body of a loop
  builds for a match, before the set \<open>seen\<close> is asked (\<open>None\<close>: the body skips the
  match for its year or number). \<open>matchedReferences\<close> runs the same loops over the same
  patterns in the same order and keeps the reference of every match.
  \<open>pairOf\<close> is the pair of the claim and \<open>firstPerPair\<close> keeps, of a list, the first
  reference of each pair.
\<close>

definition euCandidate ::
  "nat \<Rightarrow> jsstring \<Rightarrow> jsmatch \<Rightarrow> ExtractedEUReference option outcome" where
  "euCandidate i text m =
     (case m_groups m 1 of
        None \<Rightarrow> Throws TypeError
      | Some typeRaw \<Rightarrow>
         (let ty = toLowerCase typeRaw;
              communityRaw = (if i = 0 then m_groups m 2 else if i = 1 then m_groups m 4 else None);
              rawYear = (if i = 0 then m_groups m 3 else m_groups m 2);
              rawNumber = (if i = 0 then m_groups m 4 else m_groups m 3);
              yr = normalizeEuYear rawYear;
              n = parseIntU rawNumber
          in if (case yr of NaN \<Rightarrow> False | Num y \<Rightarrow> y \<le> 0)
                \<or> (case n of NaN \<Rightarrow> True | Num k \<Rightarrow> k \<le> 0)
             then Returns None
             else
              (let context = contextOf text m
               in Returns (Some
                    \<lparr> ref_type = ty, ref_community = normalizeCommunity communityRaw,
                      ref_year = yr, ref_number = n, euDocumentId = buildEuDocumentId ty yr n,
                      euArticle = extractArticleReference context,
                      fullCitation = strU (m_groups m 0), referenceContext = context,
                      referenceType = inferReferenceType context \<rparr>))))"

definition conventionCandidate ::
  "ConventionPattern \<Rightarrow> jsstring \<Rightarrow> jsmatch \<Rightarrow> ExtractedEUReference" where
  "conventionCandidate cp text m =
     \<lparr> ref_type = cp_type cp, ref_community = cp_community cp,
       ref_year = cp_year cp, ref_number = cp_number cp,
       euDocumentId = cp_id cp, euArticle = None,
       fullCitation = strU (m_groups m 0), referenceContext = contextOf text m,
       referenceType = inferReferenceType (contextOf text m) \<rparr>"

definition collectEu ::
  "nat \<Rightarrow> jsstring \<Rightarrow> jsmatch \<Rightarrow> ExtractedEUReference list
     \<Rightarrow> ExtractedEUReference list outcome" where
  "collectEu i text m found =
     andThen (euCandidate i text m)
       (\<lambda>cand. Returns (case cand of None \<Rightarrow> found | Some r \<Rightarrow> found @ [r]))"

definition collectConvention ::
  "ConventionPattern \<Rightarrow> jsstring \<Rightarrow> jsmatch \<Rightarrow> ExtractedEUReference list
     \<Rightarrow> ExtractedEUReference list outcome" where
  "collectConvention cp text m found = Returns (found @ [conventionCandidate cp text m])"

fun collectConventions ::
  "ConventionPattern list \<Rightarrow> jsstring \<Rightarrow> ExtractedEUReference list
     \<Rightarrow> ExtractedEUReference list outcome" where
  "collectConventions [] text found = Returns found"
| "collectConventions (cp # cps) text found =
     andThen (execAll flags_i (cp_pattern cp) (collectConvention cp text) text found)
             (collectConventions cps text)"

definition matchedReferences :: "jsstring \<Rightarrow> ExtractedEUReference list outcome" where
  "matchedReferences text =
     (if text = [] \<or> length (trim text) = 0 then Returns []
      else
        andThen (execAll flags_i euPattern0 (collectEu 0 text) text []) (\<lambda>f0.
        andThen (execAll flags_i euPattern1 (collectEu 1 text) text f0) (\<lambda>f1.
        andThen (execAll flags_i euPattern2 (collectEu 2 text) text f1) (\<lambda>f2.
        collectConventions conventionPatterns text f2))))"

definition pairOf :: "ExtractedEUReference \<Rightarrow> jsstring \<times> jsstring" where
  "pairOf r = (euDocumentId r, strOrEmpty (euArticle r))"

function firstPerPair :: "ExtractedEUReference list \<Rightarrow> ExtractedEUReference list" where
  "firstPerPair [] = []"
| "firstPerPair (r # rs) = r # firstPerPair (filter (\<lambda>q. pairOf q \<noteq> pairOf r) rs)"
  by pat_completeness auto
termination
  by (relation "measure length") (auto simp: less_Suc_eq_le)

text \<open>
  What the proofs carry through the loops. An identifier \<open>type:year/number\<close> holds one
  colon and an article holds none, so that the key, a string, stands for the pair.
  \<open>extractionRel\<close> ties the state of the loops of \<open>extractEuReferences\<close> to the
  matches collected so far.
\<close>

definition colons :: "jsstring \<Rightarrow> nat" where
  "colons s = length (filter (\<lambda>c. c = 58) s)"

definition wfRef :: "ExtractedEUReference \<Rightarrow> bool" where
  "wfRef r = (colons (euDocumentId r) = 1 \<and> colons (strOrEmpty (euArticle r)) = 0)"

definition extractionRel :: "extraction \<Rightarrow> ExtractedEUReference list \<Rightarrow> bool" where
  "extractionRel st found =
     (fst st = firstPerPair found \<and> snd st = dedupeKeyOf ` set found
      \<and> (\<forall>c \<in> set found. wfRef c))"

text \<open>
  A text of 298 code units that names Regulation (EU) No 2016/679 three times: once with
  Article 5 before it, and more than 120 code units further on, where the window of the
  context no longer holds Article 5, twice after Article 6.
\<close>

definition longText :: jsstring where
  "longText = js ''Article 5 of Regulation (EU) No 2016/679 sets out the principles. The Commission, the courts and the Minister are bound by what follows, and no rule of this Act may be read so as to depart from it. Article 6 of Regulation (EU) No 2016/679 gives the grounds, and Regulation (EU) No 2016/679 applies.''"

definition longTextRef :: "string \<Rightarrow> string \<Rightarrow> ExtractedEUReference" where
  "longTextRef article context =
     \<lparr> ref_type = js ''regulation'', ref_community = js ''EU'', ref_year = Num 2016,
       ref_number = Num 679, euDocumentId = js ''regulation:2016/679'',
       euArticle = Some (js article), fullCitation = js ''Regulation (EU) No 2016/679'',
       referenceContext = js context, referenceType = js ''references'' \<rparr>"

section \<open>Primary implementations (scripts/build-db.ts, buildDatabase)\<close>

text \<open>
  The part of \<open>buildDatabase\<close> that handles the extracted references of the provisions
  of the seed files. The set \<open>primaryImplementationByDocument\<close> is created once, before
  the transaction, and lives across all seed files. For each reference the function hands
  a row to the statement \<open>insertEuReference\<close>; the model returns these rows in order.
  (The row identifier that the database gave to the provision and the time stamp are left
  out of the row. A row that the table rejects for its uniqueness constraint is dropped by
  the \<open>catch\<close> without any other effect.)

  The database is new at each build. The table \<open>legal_documents\<close> has the
  identifier as its primary key, so \<open>insertDoc.run\<close> raises when the identifier of a
  seed file is in the table already. A statement also raises when its row breaks another
  constraint of its table or holds a value that cannot be bound: which rows these are is
  the parameter \<open>BuildDb\<close>. What is raised is not caught and ends the build; the model
  names it \<open>SqliteError\<close> whatever its kind.
\<close>

record EuReferenceRow =
  source_id :: jsstring
  document_id :: jsstring
  eu_document_id :: jsstring
  eu_article :: "jsstring option"
  reference_type :: jsstring
  reference_context :: jsstring
  full_citation :: jsstring
  is_primary_implementation :: bool
  implementation_status :: jsstring

definition primaryKeyOf :: "jsstring \<Rightarrow> jsstring \<Rightarrow> jsstring" where
  "primaryKeyOf seedId euDocId = seedId @ js '':'' @ euDocId"

text \<open>The loop \<open>for (const ref of extractedRefs)\<close> for one provision.\<close>

fun insertReferences ::
  "jsstring \<Rightarrow> jsstring \<Rightarrow> ExtractedEUReference list \<Rightarrow> jsstring set
     \<Rightarrow> EuReferenceRow list \<times> jsstring set" where
  "insertReferences seedId sourceId [] primarySet = ([], primarySet)"
| "insertReferences seedId sourceId (ref # refs) primarySet =
     (let primaryKey = primaryKeyOf seedId (euDocumentId ref);
          isPrimary = (referenceType ref = js ''implements'' \<and> primaryKey \<notin> primarySet);
          primarySet1 = (if isPrimary then insert primaryKey primarySet else primarySet);
          row = \<lparr> source_id = sourceId, document_id = seedId,
                  eu_document_id = euDocumentId ref, eu_article = euArticle ref,
                  reference_type = referenceType ref,
                  reference_context = referenceContext ref,
                  full_citation = fullCitation ref,
                  is_primary_implementation = isPrimary,
                  implementation_status = (if isPrimary then js ''complete'' else js ''unknown'') \<rparr>;
          more = insertReferences seedId sourceId refs primarySet1
      in (row # fst more, snd more))"

record DocumentSeed =
  seed_id :: jsstring
  seed_provisions :: "ProvisionSeed list option"

record BuildDb =
  rejectsDocument :: "DocumentSeed \<Rightarrow> bool"
  rejectsProvision :: "jsstring \<Rightarrow> ProvisionSeed \<Rightarrow> bool"

text \<open>The loop \<open>for (const prov of deduped)\<close> for one seed file.\<close>

fun insertProvisions ::
  "BuildDb \<Rightarrow> jsstring \<Rightarrow> ProvisionSeed list \<Rightarrow> jsstring set
     \<Rightarrow> (EuReferenceRow list \<times> jsstring set) outcome" where
  "insertProvisions db seedId [] primarySet = Returns ([], primarySet)"
| "insertProvisions db seedId (prov # provs) primarySet =
     (if rejectsProvision db seedId prov then Throws SqliteError
      else
       andThen (extractEuReferences (content prov)) (\<lambda>extractedRefs.
         (let sourceId = seedId @ js '':'' @ provision_ref prov;
              here = insertReferences seedId sourceId extractedRefs primarySet
          in andThen (insertProvisions db seedId provs (snd here)) (\<lambda>later.
               Returns (fst here @ fst later, snd later)))))"

text \<open>
  One turn of the loop \<open>for (const file of seedFiles)\<close>. The state is the identifiers
  in the table \<open>legal_documents\<close> and the set \<open>primaryImplementationByDocument\<close>.
\<close>

type_synonym buildState = "jsstring set \<times> jsstring set"

definition loadDocument ::
  "BuildDb \<Rightarrow> DocumentSeed \<Rightarrow> buildState \<Rightarrow> (EuReferenceRow list \<times> buildState) outcome" where
  "loadDocument db seed st =
     (if seed_id seed \<in> fst st \<or> rejectsDocument db seed then Throws SqliteError
      else
       (case seed_provisions seed of
          None \<Rightarrow> Returns ([], insert (seed_id seed) (fst st), snd st)
        | Some provisions \<Rightarrow>
            if length provisions = 0 then Returns ([], insert (seed_id seed) (fst st), snd st)
            else andThen (insertProvisions db (seed_id seed) (fst (dedupeProvisions provisions))
                            (snd st))
                   (\<lambda>res. Returns (fst res, insert (seed_id seed) (fst st), snd res))))"

text \<open>
  The transaction \<open>loadAll\<close>, and \<open>buildDatabase\<close>, which runs it on the new
  database with the new set.
\<close>

fun loadAll ::
  "BuildDb \<Rightarrow> DocumentSeed list \<Rightarrow> buildState \<Rightarrow> (EuReferenceRow list \<times> buildState) outcome" where
  "loadAll db [] st = Returns ([], st)"
| "loadAll db (seed # seeds) st =
     andThen (loadDocument db seed st) (\<lambda>here.
       andThen (loadAll db seeds (snd here)) (\<lambda>later.
         Returns (fst here @ fst later, snd later)))"

definition buildDatabase :: "BuildDb \<Rightarrow> DocumentSeed list \<Rightarrow> EuReferenceRow list outcome" where
  "buildDatabase db seeds = andThen (loadAll db seeds ({}, {})) (\<lambda>res. Returns (fst res))"

text \<open>
  The rule of the claim for the rows of a build, in the order in which they are handed to
  the database: a row is primary exactly when it is classified \<open>implements\<close> and no
  earlier row of the same document for the same instrument is classified
  \<open>implements\<close>. \<open>primaryRule d S rows\<close> is the same for the rows of the one
  document \<open>d\<close> when the set is \<open>S\<close> at the start, which the proofs use.
\<close>

definition firstImplementsIsPrimary :: "EuReferenceRow list \<Rightarrow> bool" where
  "firstImplementsIsPrimary rows =
     (\<forall>pre r post. rows = pre @ r # post \<longrightarrow>
        (is_primary_implementation r \<longleftrightarrow>
           reference_type r = js ''implements''
           \<and> (\<forall>q \<in> set pre. document_id q = document_id r
                              \<and> eu_document_id q = eu_document_id r
                 \<longrightarrow> reference_type q \<noteq> js ''implements'')))"

definition primaryRule :: "jsstring \<Rightarrow> jsstring set \<Rightarrow> EuReferenceRow list \<Rightarrow> bool" where
  "primaryRule d S rows =
     (\<forall>pre r post. rows = pre @ r # post \<longrightarrow>
        (is_primary_implementation r \<longleftrightarrow>
           reference_type r = js ''implements''
           \<and> primaryKeyOf d (eu_document_id r) \<notin> S
           \<and> (\<forall>q \<in> set pre. eu_document_id q = eu_document_id r
                 \<longrightarrow> reference_type q \<noteq> js ''implements'')))"

definition keysAfter :: "jsstring \<Rightarrow> jsstring set \<Rightarrow> EuReferenceRow list \<Rightarrow> jsstring set" where
  "keysAfter d S rows =
     S \<union> {primaryKeyOf d (eu_document_id q) | q. q \<in> set rows
                                                \<and> reference_type q = js ''implements''}"

text \<open>
  What the build keeps true of its state: every key in the set is that of a document in
  the table and of an identifier with one colon.
\<close>

definition keysOfDocuments :: "buildState \<Rightarrow> bool" where
  "keysOfDocuments st =
     (\<forall>k \<in> snd st. \<exists>d e. d \<in> fst st \<and> colons e = 1 \<and> k = primaryKeyOf d e)"

text \<open>
  A database that rejects no row for a reason of its own, a document of three provisions,
  the first and the third naming Directive 95/46, and a second document that implements
  the same directive.
\<close>

definition acceptingDb :: BuildDb where
  "acceptingDb = \<lparr> rejectsDocument = (\<lambda>seed. False), rejectsProvision = (\<lambda>seedId prov. False) \<rparr>"

definition exampleDocument :: DocumentSeed where
  "exampleDocument =
     \<lparr> seed_id = js ''act-843-2012'',
       seed_provisions = Some
         [exampleSeed ''s1'' None ''This Act implements EU Directive 95/46.'',
          exampleSeed ''s2'' None ''The Minister may make rules.'',
          exampleSeed ''s3'' None ''See also EU Directive 95/46.''] \<rparr>"

definition secondDocument :: DocumentSeed where
  "secondDocument =
     \<lparr> seed_id = js ''act-772-2008'',
       seed_provisions = Some
         [exampleSeed ''s1'' None ''This Act implements EU Directive 95/46.''] \<rparr>"

section \<open>The document parser (scripts/lib/parser.ts, parseActContent)\<close>

text \<open>
  \<open>parseActContent\<close> reads the page through the library cheerio. The document that
  \<open>cheerio.load(html)\<close> builds is a parameter of the model, seen through the queries the
  function makes of it; each field below names its query. \<open>JSON.parse\<close> is outside the
  repository as well: the table of contents is given as the value it parses to.
\<close>

text \<open>
  A node \<^verbatim>\<open>section.akn-subsection\<close> inside a section:
  \<open>sub_num\<close> is \<^verbatim>\<open>subsection.children('.akn-num').text()\<close> and \<open>sub_texts\<close> the
  texts of \<^verbatim>\<open>subsection.find('.akn-p, .akn-content, .akn-intro, .akn-listIntroduction')\<close>,
  in document order.
\<close>

record AknSubsection =
  sub_num :: jsstring
  sub_texts :: "jsstring list"

text \<open>
  A node of \<^verbatim>\<open>$('section.akn-section')\<close>: its attributes \<open>id\<close> and \<open>data-eid\<close>;
  \<open>sec_heading\<close> is \<^verbatim>\<open>section.children('h3, h4').first().text()\<close>;
  \<open>sec_parent\<close> is \<open>None\<close> when
  \<^verbatim>\<open>section.closest('section.akn-subpart, section[class*="akn-part"], section[class*="akn-chapter"]')\<close>
  is empty and otherwise the text \<^verbatim>\<open>parentSubpart.children('h2, h3').first().text()\<close>;
  \<open>sec_subsections\<close> are the nodes of \<^verbatim>\<open>section.find('section.akn-subsection')\<close>;
  \<open>sec_direct\<close> the texts of the nodes of \<^verbatim>\<open>section.find('.akn-p, .akn-content')\<close>
  that are not below a subsection.
\<close>

record AknSection =
  sec_attr_id :: "jsstring option"
  sec_attr_data_eid :: "jsstring option"
  sec_heading :: jsstring
  sec_parent :: "jsstring option"
  sec_subsections :: "AknSubsection list"
  sec_direct :: "jsstring list"

text \<open>
  An entry of the table of contents, with the properties the function reads, of the types
  the source declares for them (strings, an array); a property is \<open>None\<close> when it is
  absent or falsy. \<open>TocNull\<close> is an entry that is \<open>null\<close>, on which reading a
  property raises.
\<close>

datatype TocItem =
    TocNull
  | TocItem (toc_id: "jsstring option") (toc_type: "jsstring option")
            (toc_title: "jsstring option") (toc_heading: "jsstring option")
            (toc_children: "TocItem list option")

text \<open>
  \<^verbatim>\<open>$('script#akn_toc_json')\<close>: absent; present with a text for which parsing or
  iterating raises at once; or present with an array of entries.
\<close>

datatype TocScript = NoTocScript | TocUnreadable | TocArray "TocItem list"

text \<open>
  \<^verbatim>\<open>$(`#${item.id}`)\<close>: the text of the element found, no element, or a selector that
  cheerio rejects by raising.
\<close>

datatype DomLookup = ElementText jsstring | NoElement | BadSelector

text \<open>
  The page: \<open>page_title\<close> is \<^verbatim>\<open>$('title').first().text()\<close>;
  \<open>page_frbr_uri\<close> is the property \<open>expression_frbr_uri\<close> of the JSON in
  \<^verbatim>\<open>script#track-page-properties\<close> when the \<open>try\<close> block gets to read it as a
  string, and \<open>None\<close> in every other case (no script, no JSON, no such property);
  \<open>page_body\<close> is \<^verbatim>\<open>$('body').text()\<close>.
\<close>

record Page =
  page_title :: jsstring
  page_frbr_uri :: "jsstring option"
  page_sections :: "AknSection list"
  page_toc :: TocScript
  page_element :: "jsstring \<Rightarrow> DomLookup"
  page_body :: jsstring

text \<open>
  The records of the result. \<open>pp_section\<close> and \<open>act_issued_date\<close> are assigned from a
  capture of a match (\<open>secMatch[1]\<close>, \<open>dateMatch[1]\<close>), which is \<open>None\<close> when the
  group took no part in the match.
\<close>

record ParsedProvision =
  pp_provision_ref :: jsstring
  pp_part :: "jsstring option"
  pp_chapter :: "jsstring option"
  pp_section :: "jsstring option"
  pp_title :: jsstring
  pp_content :: jsstring

record ParsedDefinition =
  def_term :: jsstring
  def_definition :: jsstring
  def_source_provision :: "jsstring option"

record ParsedAct =
  act_id :: jsstring
  act_type :: jsstring
  act_title :: jsstring
  act_short_name :: jsstring
  act_act_number :: jsnum
  act_year :: jsnum
  act_status :: jsstring
  act_issued_date :: "jsstring option"
  act_url :: jsstring
  act_provisions :: "ParsedProvision list"
  act_definitions :: "ParsedDefinition list"

text \<open>
  \<open>str.replace(re, '')\<close> for a pattern without the flag \<open>g\<close>, \<open>str.search(re)\<close>,
  \<open>str.replace(needle, '')\<close> for a string \<open>needle\<close>, \<open>parts.join(' ')\<close> and
  \<open>str.split(/\s+/)\<close>.
\<close>

definition removeFirstMatch :: "flags \<Rightarrow> re \<Rightarrow> jsstring \<Rightarrow> jsstring" where
  "removeFirstMatch f r s =
     (case regexMatch f r s of
        None \<Rightarrow> s
      | Some m \<Rightarrow> take (m_index m) s @ snd (m_end m))"

definition regexSearch :: "flags \<Rightarrow> re \<Rightarrow> jsstring \<Rightarrow> nat option" where
  "regexSearch f r s = map_option m_index (regexMatch f r s)"

fun removeFirst :: "jsstring \<Rightarrow> jsstring \<Rightarrow> jsstring" where
  "removeFirst needle [] = []"
| "removeFirst needle (c # cs) =
     (if take (length needle) (c # cs) = needle then drop (length needle) (c # cs)
      else c # removeFirst needle cs)"

fun joinSpace :: "jsstring list \<Rightarrow> jsstring" where
  "joinSpace [] = []"
| "joinSpace [x] = x"
| "joinSpace (x # y # zs) = x @ [32] @ joinSpace (y # zs)"

function splitWhitespace :: "jsstring \<Rightarrow> jsstring \<Rightarrow> jsstring list" where
  "splitWhitespace acc [] = [acc]"
| "splitWhitespace acc (c # cs) =
     (if isWhiteSpace c then acc # splitWhitespace [] (dropWhile isWhiteSpace cs)
      else splitWhitespace (acc @ [c]) cs)"
  by pat_completeness auto
termination
  by (relation "measure (\<lambda>(acc, s). length s)") (auto simp: length_dropWhile_le less_Suc_eq_le)

text \<open>
  \<open>buildShortName\<close>. Its test \<^verbatim>\<open>w[0] === w[0].toUpperCase()\<close> asks whether the
  first code unit of a word is left alone by the case mapping of the runtime, which is the
  parameter \<open>upperFixed\<close>. The pattern is \<^verbatim>\<open>/,\s*\d{4}.*$/\<close>.
\<close>

definition YEAR_SUFFIX :: re where
  "YEAR_SUFFIX = seqs [chr CHR '','', star space, times 4 4 digit, star Dot, Eol]"

definition buildShortName :: "(cu \<Rightarrow> bool) \<Rightarrow> jsstring \<Rightarrow> jsnum \<Rightarrow> jsstring" where
  "buildShortName upperFixed ttl yr =
     (let wordsList = splitWhitespace []
            (removeFirstMatch flags_none YEAR_SUFFIX (filter (\<lambda>c. c \<noteq> 40 \<and> c \<noteq> 41) ttl))
      in if length wordsList \<le> 3 then ttl @ js '' '' @ showNum yr
         else
          (let significant = filter (\<lambda>w. length w > 2
                    \<and> (case w of [] \<Rightarrow> False | c # _ \<Rightarrow> upperFixed c)
                    \<and> w \<notin> set [js ''The'', js ''And'', js ''For'', js ''Act'', js ''Of'', js ''In'',
                                 js ''To'', js ''With'']) wordsList
           in if length significant \<ge> 2
              then concat (map (take 1) (take 4 significant)) @ js '' '' @ showNum yr
              else trim (take 30 ttl) @ js '' '' @ showNum yr))"

text \<open>
  \<open>extractDefinitionsFromContent\<close>, with the pattern
  \<^verbatim>\<open>/[\u201C"\u201E]([^\u201D"\u201F]+)[\u201D"\u201F]\s+means\s+([^;]+);/gi\<close>
  (the source writes the quotation marks U+201C to U+201F themselves).
\<close>

definition DEF_PATTERN :: re where
  "DEF_PATTERN = seqs [Set [CChar 8220, CChar 34, CChar 8222],
     Grp 1 (plus (NSet [CChar 8221, CChar 34, CChar 8223])),
     Set [CChar 8221, CChar 34, CChar 8223], plus space, lit ''means'', plus space,
     Grp 2 (plus (NSet [CChar 59])), chr CHR '';'']"

definition definitionBody ::
  "jsstring \<Rightarrow> jsmatch \<Rightarrow> ParsedDefinition list \<Rightarrow> ParsedDefinition list outcome" where
  "definitionBody sourceProvision m defs =
     (case m_groups m 1 of
        None \<Rightarrow> Throws TypeError
      | Some t \<Rightarrow>
         (case m_groups m 2 of
            None \<Rightarrow> Throws TypeError
          | Some d \<Rightarrow>
              Returns (defs @ [\<lparr> def_term = trim t, def_definition = trim d,
                                  def_source_provision = Some sourceProvision \<rparr>])))"

definition extractDefinitionsFromContent ::
  "jsstring \<Rightarrow> ParsedDefinition list \<Rightarrow> jsstring \<Rightarrow> ParsedDefinition list outcome" where
  "extractDefinitionsFromContent cont defs sourceProvision =
     execAll flags_i DEF_PATTERN (definitionBody sourceProvision) cont defs"

text \<open>
  The first strategy, over the nodes \<^verbatim>\<open>section.akn-section\<close>. The patterns are
  \<^verbatim>\<open>/(?:^|__)sec_(\d+)/\<close>, \<^verbatim>\<open>/^\d+\.\s*/\<close>, \<^verbatim>\<open>/^PART\s/i\<close>,
  \<^verbatim>\<open>/^CHAPTER\s/i\<close> and \<^verbatim>\<open>/\b(?:interpretation|definitions?)\b/i\<close>. The state of
  the traversal is the provisions and definitions so far and the current part and chapter.
\<close>

definition SEC_ID :: re where
  "SEC_ID = seqs [Alt Bol (lit ''__''), lit ''sec_'', Grp 1 (plus digit)]"

definition LEADING_NUMBER :: re where
  "LEADING_NUMBER = seqs [Bol, plus digit, chr CHR ''.'', star space]"

definition PART_HEADING :: re where
  "PART_HEADING = seqs [Bol, lit ''PART'', space]"

definition CHAPTER_HEADING :: re where
  "CHAPTER_HEADING = seqs [Bol, lit ''CHAPTER'', space]"

definition INTERPRETATION :: re where
  "INTERPRETATION = seqs [WordB,
     Alt (lit ''interpretation'') (Seq (lit ''definition'') (opt (chr CHR ''s''))), WordB]"

record AknState =
  st_provisions :: "ParsedProvision list"
  st_definitions :: "ParsedDefinition list"
  st_currentPart :: "jsstring option"
  st_currentChapter :: "jsstring option"

definition truthyOr :: "jsstring option \<Rightarrow> jsstring option \<Rightarrow> jsstring option" where
  "truthyOr a b = (if truthyStr a then a else b)"

definition subsectionPart :: "AknSubsection \<Rightarrow> jsstring list" where
  "subsectionPart sub =
     (let num = trim (sub_num sub);
          txt = joinSpace (filter (\<lambda>t. t \<noteq> []) (map normalizeWhitespace (sub_texts sub)))
      in if txt \<noteq> [] then [if num \<noteq> [] then num @ js '' '' @ txt else txt] else [])"

definition aknSection :: "AknSection \<Rightarrow> AknState \<Rightarrow> AknState outcome" where
  "aknSection sec st =
     (let sectionId = strOrEmpty (truthyOr (truthyOr (sec_attr_id sec) (sec_attr_data_eid sec))
                                           (Some []))
      in case regexMatch flags_none SEC_ID sectionId of
           None \<Rightarrow> Returns st
         | Some secMatch \<Rightarrow>
                (let sectionNum = m_groups secMatch 1;
                     provisionRef = js ''s'' @ strU sectionNum;
                     sectionTitle = trim (removeFirstMatch flags_none LEADING_NUMBER
                                            (normalizeWhitespace (sec_heading sec)));
                     part1 = (case sec_parent sec of
                                None \<Rightarrow> st_currentPart st
                              | Some h \<Rightarrow> if regexTest flags_i PART_HEADING (trim h)
                                          then Some (trim h) else st_currentPart st);
                     chapter1 = (case sec_parent sec of
                                   None \<Rightarrow> st_currentChapter st
                                 | Some h \<Rightarrow> if regexTest flags_i CHAPTER_HEADING (trim h)
                                             then Some (trim h) else st_currentChapter st);
                     fromSubsections = concat (map subsectionPart (sec_subsections sec));
                     contentParts =
                       (if length fromSubsections = 0
                        then (let directContent =
                                    joinSpace (filter (\<lambda>t. t \<noteq> [])
                                                 (map normalizeWhitespace (sec_direct sec)))
                              in if directContent \<noteq> [] then [directContent] else [])
                        else fromSubsections);
                     cont = normalizeWhitespace (joinSpace contentParts);
                     st1 = st \<lparr> st_currentPart := part1, st_currentChapter := chapter1 \<rparr>
                 in if cont \<noteq> [] then
                      (let st2 = st1 \<lparr> st_provisions := st_provisions st1 @
                                    [\<lparr> pp_provision_ref = provisionRef, pp_part = part1,
                                       pp_chapter = chapter1, pp_section = sectionNum,
                                       pp_title = sectionTitle, pp_content = cont \<rparr>] \<rparr>
                       in if regexTest flags_i INTERPRETATION sectionTitle
                          then andThen (extractDefinitionsFromContent cont (st_definitions st2)
                                          provisionRef)
                                 (\<lambda>defs. Returns (st2 \<lparr> st_definitions := defs \<rparr>))
                          else Returns st2)
                    else Returns st1))"

fun aknSections :: "AknSection list \<Rightarrow> AknState \<Rightarrow> AknState outcome" where
  "aknSections [] st = Returns st"
| "aknSections (sec # secs) st = andThen (aknSection sec st) (aknSections secs)"

definition strategyAkn :: "Page \<Rightarrow> AknState outcome" where
  "strategyAkn page =
     aknSections (page_sections page)
       \<lparr> st_provisions = [], st_definitions = [], st_currentPart = None,
         st_currentChapter = None \<rparr>"

text \<open>
  The second strategy, the walk \<open>extractSectionsFromToc\<close> over the table of contents.
  It runs inside \<open>try { ... } catch { }\<close>: what it raises ends the walk and is
  dropped, and the provisions pushed before stay. The result is the provisions and whether
  the walk came to its end (\<open>True\<close>) or was cut by an exception.
\<close>

definition tocSection ::
  "(jsstring \<Rightarrow> DomLookup) \<Rightarrow> TocItem \<Rightarrow> ParsedProvision list \<Rightarrow> ParsedProvision list \<times> bool" where
  "tocSection lookupElement item ps =
     (if toc_type item = Some (js ''section'') \<and> truthyStr (toc_id item) then
        (case regexMatch flags_none SEC_ID (strOrEmpty (toc_id item)) of
           None \<Rightarrow> (ps, True)
         | Some secMatch \<Rightarrow>
            (case lookupElement (strOrEmpty (toc_id item)) of
               BadSelector \<Rightarrow> (ps, False)
             | NoElement \<Rightarrow> (ps, True)
             | ElementText txt \<Rightarrow>
                    (let sectionNum = m_groups secMatch 1;
                         cont = normalizeWhitespace txt;
                         headingText = strOrEmpty (toc_title item);
                         cleanContent = trim (removeFirst headingText cont)
                     in if cleanContent \<noteq> [] then
                          (ps @ [\<lparr> pp_provision_ref = js ''s'' @ strU sectionNum, pp_part = None,
                                   pp_chapter = None, pp_section = sectionNum,
                                   pp_title = trim (strOrEmpty (toc_heading item)),
                                   pp_content = cleanContent \<rparr>], True)
                        else (ps, True))))
      else (ps, True))"

fun extractSectionsFromToc ::
  "(jsstring \<Rightarrow> DomLookup) \<Rightarrow> TocItem list \<Rightarrow> ParsedProvision list
     \<Rightarrow> ParsedProvision list \<times> bool" where
  "extractSectionsFromToc lookupElement [] ps = (ps, True)"
| "extractSectionsFromToc lookupElement (TocNull # items) ps = (ps, False)"
| "extractSectionsFromToc lookupElement (TocItem i ty t h ch # items) ps =
     (let here = tocSection lookupElement (TocItem i ty t h ch) ps
      in if \<not> snd here then here
         else
          (let below = (case ch of
                          None \<Rightarrow> here
                        | Some children \<Rightarrow> extractSectionsFromToc lookupElement children (fst here))
           in if \<not> snd below then below
              else extractSectionsFromToc lookupElement items (fst below)))"

definition strategyToc :: "Page \<Rightarrow> ParsedProvision list" where
  "strategyToc page =
     (case page_toc page of
        NoTocScript \<Rightarrow> []
      | TocUnreadable \<Rightarrow> []
      | TocArray toc \<Rightarrow> fst (extractSectionsFromToc (page_element page) toc []))"

text \<open>
  The third strategy, over the text of the body, with the pattern
  \<^verbatim>\<open>/(?:Section|SECTION)\s+(\d+)[\.\s\u2014\u2013-]+(.+?)(?=(?:Section|SECTION)\s+\d+|$)/gs\<close>
  and \<^verbatim>\<open>/[.\n]/\<close> for the end of the title.
\<close>

definition SECTION_PATTERN :: re where
  "SECTION_PATTERN = seqs [Alt (lit ''Section'') (lit ''SECTION''), plus space, Grp 1 (plus digit),
     plus (Set [CChar 46, CSpace, CChar 8212, CChar 8211, CChar 45]), Grp 2 (lazyPlus Dot),
     Look (Alt (seqs [Alt (lit ''Section'') (lit ''SECTION''), plus space, plus digit]) Eol)]"

definition TITLE_END :: re where
  "TITLE_END = Set [CChar 46, CChar 10]"

definition regexSectionBody ::
  "jsmatch \<Rightarrow> ParsedProvision list \<Rightarrow> ParsedProvision list outcome" where
  "regexSectionBody m ps =
     (case m_groups m 2 of
        None \<Rightarrow> Throws TypeError
      | Some body2 \<Rightarrow>
         (let sectionNum = m_groups m 1;
              sectionBody = trim body2;
              provisionRef = js ''s'' @ strU sectionNum;
              titleEndIdx = regexSearch flags_none TITLE_END sectionBody;
              hasTitle = (case titleEndIdx of None \<Rightarrow> False | Some i \<Rightarrow> i > 0);
              idx = (case titleEndIdx of None \<Rightarrow> 0 | Some i \<Rightarrow> i);
              sectionTitle = (if hasTitle then trim (take idx sectionBody) else []);
              cont = (if hasTitle then trim (drop (idx + 1) sectionBody) else sectionBody)
          in if trim cont \<noteq> [] then
               Returns (ps @ [\<lparr> pp_provision_ref = provisionRef, pp_part = None,
                                 pp_chapter = None, pp_section = sectionNum,
                                 pp_title = sectionTitle, pp_content = trim cont \<rparr>])
             else Returns ps))"

definition strategyRegex :: "Page \<Rightarrow> ParsedProvision list outcome" where
  "strategyRegex page = execAll flags_s SECTION_PATTERN regexSectionBody (page_body page) []"

text \<open>
  \<open>parseActContent\<close>. The patterns are \<^verbatim>\<open>/\s*[\u2013\u2014-]\s*GhaLII\s*$/\<close>
  (the source writes the two dashes themselves) for the title and
  \<^verbatim>\<open>/@(\d{4}-\d{2}-\d{2})/\<close> for the date. The function has three blocks, one for
  each strategy, the second and the third under the guard \<open>provisions.length === 0\<close>;
  \<open>parseActContentSteps\<close> returns, beside the result, the blocks that were entered.
\<close>

definition TITLE_SUFFIX :: re where
  "TITLE_SUFFIX = seqs [star space, Set [CChar 8211, CChar 8212, CChar 45], star space,
     lit ''GhaLII'', star space, Eol]"

definition FRBR_DATE :: re where
  "FRBR_DATE = seqs [chr CHR ''@'', Grp 1 (seqs [times 4 4 digit, chr CHR ''-'', times 2 2 digit,
                                                chr CHR ''-'', times 2 2 digit])]"

datatype strategy = AknMarkup | TocJson | RegexFallback

definition parseActContentSteps ::
  "(cu \<Rightarrow> bool) \<Rightarrow> Page \<Rightarrow> jsnum \<Rightarrow> jsnum \<Rightarrow> jsstring \<Rightarrow> (ParsedAct \<times> strategy list) outcome" where
  "parseActContentSteps upperFixed page yr actNumber actTitle =
     (let stripped = removeFirstMatch flags_none TITLE_SUFFIX (trim (page_title page));
          pageTitle = (if stripped \<noteq> [] then stripped else actTitle);
          ttl = normalizeWhitespace pageTitle;
          shortName = buildShortName upperFixed ttl yr;
          issuedDate =
            (case page_frbr_uri page of
               None \<Rightarrow> Some (showNum yr @ js ''-01-01'')
             | Some uri \<Rightarrow>
                (case regexMatch flags_none FRBR_DATE uri of
                   None \<Rightarrow> Some (showNum yr @ js ''-01-01'')
                 | Some dateMatch \<Rightarrow> m_groups dateMatch 1));
          canonicalUrl = js ''https://ghalii.org/akn/gh/act/'' @ showNum yr @ js ''/''
                         @ showNum actNumber
      in andThen (strategyAkn page) (\<lambda>st.
         let afterToc = (if length (st_provisions st) = 0
                         then (strategyToc page, [AknMarkup, TocJson])
                         else (st_provisions st, [AknMarkup]))
         in andThen (if length (fst afterToc) = 0
                     then andThen (strategyRegex page)
                            (\<lambda>provs. Returns (provs, snd afterToc @ [RegexFallback]))
                     else Returns afterToc) (\<lambda>final.
         Returns (\<lparr> act_id = js ''act-'' @ showNum actNumber @ js ''-'' @ showNum yr,
                   act_type = js ''act'', act_title = ttl, act_short_name = shortName,
                   act_act_number = actNumber, act_year = yr, act_status = js ''in_force'',
                   act_issued_date = issuedDate, act_url = canonicalUrl,
                   act_provisions = fst final, act_definitions = st_definitions st \<rparr>,
                  snd final))))"

definition parseActContent ::
  "(cu \<Rightarrow> bool) \<Rightarrow> Page \<Rightarrow> jsnum \<Rightarrow> jsnum \<Rightarrow> jsstring \<Rightarrow> ParsedAct outcome" where
  "parseActContent upperFixed page yr actNumber actTitle =
     andThen (parseActContentSteps upperFixed page yr actNumber actTitle)
       (\<lambda>r. Returns (fst r))"

text \<open>
  Example pages: one with a section in AKN markup, one whose table of contents names a
  section, one with text in the body only, and one with nothing.
\<close>

definition aknPage :: Page where
  "aknPage = \<lparr> page_title = js ''Data Protection Act, 2012 - GhaLII'',
     page_frbr_uri = Some (js ''/akn/gh/act/2012/843/eng@2012-05-18''),
     page_sections = [\<lparr> sec_attr_id = Some (js ''part_I__sec_1''), sec_attr_data_eid = None,
                         sec_heading = js ''1. Interpretation'', sec_parent = Some (js ''PART I''),
                         sec_subsections = [],
                         sec_direct = [js ''\"data\" means information;''] \<rparr>],
     page_toc = NoTocScript, page_element = (\<lambda>i. NoElement),
     page_body = js ''Section 1. Interpretation. \"data\" means information;'' \<rparr>"

definition plainPage :: Page where
  "plainPage = \<lparr> page_title = [], page_frbr_uri = None, page_sections = [],
     page_toc = TocUnreadable, page_element = (\<lambda>i. NoElement),
     page_body = js ''Section 1. Title. Body'' \<rparr>"

definition emptyPage :: Page where
  "emptyPage = \<lparr> page_title = [], page_frbr_uri = None, page_sections = [],
     page_toc = NoTocScript, page_element = (\<lambda>i. NoElement), page_body = [] \<rparr>"

definition tocPage :: Page where
  "tocPage = \<lparr> page_title = [], page_frbr_uri = None, page_sections = [],
     page_toc = TocArray
       [TocItem (Some (js ''part_1'')) (Some (js ''part'')) (Some (js ''Part 1'')) None
          (Some [TocItem (Some (js ''part_1__sec_2'')) (Some (js ''section''))
                   (Some (js ''2. Scope'')) (Some (js ''Scope'')) None,
                 TocNull]),
        TocItem (Some (js ''sec_3'')) (Some (js ''section'')) None None None],
     page_element = (\<lambda>i. if i = js ''part_1__sec_2'' then ElementText (js ''2. Scope This Act applies.'')
                          else if i = js ''sec_3'' then ElementText (js ''Never read.'')
                          else NoElement),
     page_body = js ''Section 9. Title. Body'' \<rparr>"

section \<open>Properties of the fetcher\<close>

lemma fetchLoop_run:
  assumes "\<forall>i. a \<le> i \<and> i < k \<longrightarrow> (\<exists>r. server i = Some r \<and> retryable (resp_status r))"
    and "a \<le> k" and "k \<le> maxRetries" and "server k = Some r"
    and "k = maxRetries \<or> \<not> retryable (resp_status r)"
  shows "fetchLoop server maxRetries a tr =
           (Inr (toResult r),
            tr @ concat (map (\<lambda>i. [Fetch, Sleep (2 ^ (i + 1) * 1000)]) [a..<k]) @ [Fetch])"
  using assms
proof (induction "k - a" arbitrary: a tr)
  case 0
  then have ak: "a = k" by simp
  show ?case using 0 ak
    by (subst fetchLoop.simps) (auto simp: toResult_def retryable_def)
next
  case (Suc d)
  then have lt: "a < k" by simp
  then obtain ra where ra: "server a = Some ra" "retryable (resp_status ra)"
    using Suc.prems(1) by auto
  have step: "fetchLoop server maxRetries a tr =
      fetchLoop server maxRetries (a + 1) (tr @ [Fetch, Sleep (2 ^ (a + 1) * 1000)])"
    using lt Suc.prems(3) ra by (subst fetchLoop.simps) (auto simp: retryable_def)
  have d: "d = k - (a + 1)" using Suc.hyps(2) by simp
  have rest: "fetchLoop server maxRetries (a + 1) (tr @ [Fetch, Sleep (2 ^ (a + 1) * 1000)]) =
      (Inr (toResult r), (tr @ [Fetch, Sleep (2 ^ (a + 1) * 1000)]) @
         concat (map (\<lambda>i. [Fetch, Sleep (2 ^ (i + 1) * 1000)]) [a + 1..<k]) @ [Fetch])"
    using Suc.hyps(1)[OF d] Suc.prems lt by auto
  have "[a..<k] = a # [a + 1..<k]" using lt by (simp add: upt_conv_Cons)
  then show ?case using step rest by simp
qed

lemma fetchLoop_never_exhausts:
  "attempt \<le> maxRetries \<Longrightarrow>
     fst (fetchLoop server maxRetries attempt tr) \<noteq> Inl (FailedAfterRetries n)"
proof (induction server maxRetries attempt tr rule: fetchLoop.induct)
  case (1 server maxRetries attempt tr)
  show ?case
  proof (cases "server attempt")
    case None
    then show ?thesis using "1.prems" by (subst fetchLoop.simps) simp
  next
    case (Some response)
    show ?thesis
    proof (cases "(resp_status response = 429 \<or> resp_status response \<ge> 500) \<and> attempt < maxRetries")
      case True
      then have "fst (fetchLoop server maxRetries (attempt + 1)
                   (tr @ [Fetch, Sleep (2 ^ (attempt + 1) * 1000)])) \<noteq> Inl (FailedAfterRetries n)"
        using "1.IH"[OF "1.prems" Some] by auto
      then show ?thesis using True Some "1.prems" by (subst fetchLoop.simps) auto
    next
      case False
      then show ?thesis using Some "1.prems" by (subst fetchLoop.simps) auto
    qed
  qed
qed

lemma fetch_three_503_then_200:
  "fst (fetchWithRateLimit (thenOk 3 503 (js ''busy'') (js ''<html>ok</html>''))) =
     Inr \<lparr> status = 200, body = js ''<html>ok</html>'', contentType = [] \<rparr>"
  by (simp add: fetchWithRateLimit_def fetchWithRateLimitN_def fetchLoop.simps thenOk_def)

text \<open>
  Claim C2. Three 503 responses followed by a 200 give the body of the 200 (the lemma
  above). When every response is a 503, the claim asks for a fatal error after exactly
  three retries. The code does make four calls with three sleeps between them, but the
  fourth 503 fails the test \<open>attempt < maxRetries\<close> and falls through to the
  \<open>return\<close>: the 503 response itself is returned as a result, and the
  \<open>throw\<close> after the loop is never reached, for any server.
\<close>

theorem fetch_all_503_returns_response:
  "fetchWithRateLimit (always 503 (js ''busy'')) =
     (Inr \<lparr> status = 503, body = js ''busy'', contentType = [] \<rparr>,
      [RateLimit, Fetch, Sleep 2000, Fetch, Sleep 4000, Fetch, Sleep 8000, Fetch])
   \<and> (\<forall>server n. fst (fetchWithRateLimit server) \<noteq> Inl (FailedAfterRetries n))"
proof
  show "fetchWithRateLimit (always 503 (js ''busy'')) =
     (Inr \<lparr> status = 503, body = js ''busy'', contentType = [] \<rparr>,
      [RateLimit, Fetch, Sleep 2000, Fetch, Sleep 4000, Fetch, Sleep 8000, Fetch])"
    by (simp add: fetchWithRateLimit_def fetchWithRateLimitN_def fetchLoop.simps always_def)
  show "\<forall>server n. fst (fetchWithRateLimit server) \<noteq> Inl (FailedAfterRetries n)"
    by (simp add: fetchWithRateLimit_def fetchWithRateLimitN_def fetchLoop_never_exhausts)
qed

text \<open>
  Claim C9, as stated, gives the successive delays as 1 s, 2 s and 4 s. The delay before
  the retry that follows attempt \<open>attempt\<close> is \<open>2 ^ (attempt + 1) * 1000\<close> ms and
  \<open>attempt\<close> starts at 0, so three 503 responses are followed by sleeps of 2 s, 4 s and
  8 s.
\<close>

theorem fetch_backoff_delays_counterexample:
  "sleeps (snd (fetchWithRateLimit (thenOk 3 503 [] []))) = [2000, 4000, 8000]
   \<and> sleeps (snd (fetchWithRateLimit (thenOk 3 503 [] []))) \<noteq> [1000, 2000, 4000]"
  by (simp add: fetchWithRateLimit_def fetchWithRateLimitN_def fetchLoop.simps thenOk_def
      sleeps_def)

lemma sleeps_append: "sleeps (xs @ ys) = sleeps xs @ sleeps ys"
  by (simp add: sleeps_def)

lemma fetchLoop_sleeps:
  "a \<le> m \<Longrightarrow> \<exists>n. a + n \<le> m \<and>
     sleeps (snd (fetchLoop server m a tr)) = sleeps tr @ map (\<lambda>i. 2 ^ (i + 1) * 1000) [a..<a + n]"
proof (induction server m a tr rule: fetchLoop.induct)
  case (1 server maxRetries attempt tr)
  show ?case
  proof (cases "server attempt")
    case None
    then have "sleeps (snd (fetchLoop server maxRetries attempt tr)) = sleeps tr"
      using "1.prems" by (subst fetchLoop.simps) (simp add: sleeps_append, simp add: sleeps_def)
    then show ?thesis using "1.prems" by (intro exI[of _ 0]) simp
  next
    case (Some response)
    show ?thesis
    proof (cases "(resp_status response = 429 \<or> resp_status response \<ge> 500) \<and> attempt < maxRetries")
      case True
      then have le: "attempt + 1 \<le> maxRetries" by simp
      from "1.IH"[OF "1.prems" Some _ _ le] True
      obtain n where n: "attempt + 1 + n \<le> maxRetries"
        and s: "sleeps (snd (fetchLoop server maxRetries (attempt + 1)
                   (tr @ [Fetch, Sleep (2 ^ (attempt + 1) * 1000)])))
                = sleeps (tr @ [Fetch, Sleep (2 ^ (attempt + 1) * 1000)])
                  @ map (\<lambda>i. 2 ^ (i + 1) * 1000) [attempt + 1..<attempt + 1 + n]"
        by auto
      have step: "fetchLoop server maxRetries attempt tr =
          fetchLoop server maxRetries (attempt + 1) (tr @ [Fetch, Sleep (2 ^ (attempt + 1) * 1000)])"
        using True Some "1.prems" by (subst fetchLoop.simps) auto
      have u: "[attempt..<attempt + Suc n] = attempt # [attempt + 1..<attempt + 1 + n]"
        by (simp add: upt_conv_Cons)
      have "sleeps (snd (fetchLoop server maxRetries attempt tr))
            = sleeps tr @ map (\<lambda>i. 2 ^ (i + 1) * 1000) [attempt..<attempt + Suc n]"
        unfolding step s u by (simp add: sleeps_append) (simp add: sleeps_def)
      then show ?thesis using n by (intro exI[of _ "Suc n"]) simp
    next
      case False
      then have "sleeps (snd (fetchLoop server maxRetries attempt tr)) = sleeps tr"
        using Some "1.prems"
        by (subst fetchLoop.simps) (auto simp: sleeps_append, auto simp: sleeps_def)
      then show ?thesis using "1.prems" by (intro exI[of _ 0]) simp
    qed
  qed
qed

lemma fetch_at_most_three_sleeps:
  "\<exists>n\<le>3. sleeps (snd (fetchWithRateLimit srv)) = take n [2000, 4000, 8000]"
proof -
  from fetchLoop_sleeps[of 0 3 srv "[RateLimit]"]
  obtain n where n: "n \<le> 3"
    and s: "sleeps (snd (fetchLoop srv 3 0 [RateLimit])) =
            sleeps [RateLimit] @ map (\<lambda>i. 2 ^ (i + 1) * 1000) [0..<n]" by auto
  have k: "n = 0 \<or> n = 1 \<or> n = 2 \<or> n = 3" using n by arith
  have upt: "[0..<3] = [0, 1, 2]" "[0..<2] = [0, 1]" by (simp_all add: upt_rec)
  have "sleeps (snd (fetchWithRateLimit srv)) = take n [2000, 4000, 8000]"
    unfolding fetchWithRateLimit_def fetchWithRateLimitN_def s using k
    by (auto simp: sleeps_def upt)
  then show ?thesis using n by blast
qed

text \<open>
  Claim C9, amended. The fetcher retries only on status 429 or 5xx, up to three times,
  and sleeps \<open>2 ^ (attempt + 1) * 1000\<close> ms before each retry, with \<open>attempt\<close>
  counted from 0: 2 s, 4 s, 8 s. Let the first \<open>k \<le> 3\<close> responses have status 429 or
  500 to 599 and let response \<open>k\<close> have any other status code, one below 500 that
  is not 429 (404, say). Then the
  fetcher makes exactly \<open>k + 1\<close> calls, sleeps 2 s, 4 s, 8 s after the first, second
  and third, and returns response \<open>k\<close>; with \<open>k = 0\<close> it returns at once, with no
  retry and no sleep. Against any server at all the sleeps are the first \<open>n \<le> 3\<close> of
  2 s, 4 s, 8 s.
\<close>

theorem fetch_retry_schedule:
  assumes "k \<le> 3"
    and "\<forall>i<k. \<exists>r. server i = Some r
            \<and> (resp_status r = 429 \<or> (500 \<le> resp_status r \<and> resp_status r \<le> 599))"
    and "server k = Some r"
    and "resp_status r \<noteq> 429 \<and> resp_status r < 500"
  shows "fetchWithRateLimit server =
           (Inr (toResult r),
            RateLimit # concat (map (\<lambda>i. [Fetch, Sleep (2 ^ (i + 1) * 1000)]) [0..<k]) @ [Fetch])
         \<and> sleeps (snd (fetchWithRateLimit server)) = take k [2000, 4000, 8000]
         \<and> fetches (snd (fetchWithRateLimit server)) = k + 1
         \<and> (\<forall>other. \<exists>n\<le>3. sleeps (snd (fetchWithRateLimit other)) = take n [2000, 4000, 8000])"
proof -
  have a2: "\<forall>i. 0 \<le> i \<and> i < k \<longrightarrow> (\<exists>r. server i = Some r \<and> retryable (resp_status r))"
    using assms(2) by (auto simp: retryable_def)
  have a4: "k = 3 \<or> \<not> retryable (resp_status r)" using assms(4) by (simp add: retryable_def)
  have run: "fetchWithRateLimit server =
           (Inr (toResult r),
            RateLimit # concat (map (\<lambda>i. [Fetch, Sleep (2 ^ (i + 1) * 1000)]) [0..<k]) @ [Fetch])"
    unfolding fetchWithRateLimit_def fetchWithRateLimitN_def
    using fetchLoop_run[OF a2 _ assms(1) assms(3) a4, of "[RateLimit]"] by simp
  have k: "k = 0 \<or> k = 1 \<or> k = 2 \<or> k = 3" using assms(1) by arith
  have upt: "[0..<3] = [0, 1, 2]" "[0..<2] = [0, 1]"
    by (simp_all add: upt_rec)
  have s: "sleeps (snd (fetchWithRateLimit server)) = take k [2000, 4000, 8000]"
    using k by (auto simp: run sleeps_def upt)
  have f: "fetches (snd (fetchWithRateLimit server)) = k + 1"
    using k by (auto simp: run fetches_def upt)
  show ?thesis using run s f fetch_at_most_three_sleeps by blast
qed

theorem fetch_retry_schedule_witness:
  "fetchWithRateLimit (thenOk 2 429 [] (js ''ok'')) =
     (Inr \<lparr> status = 200, body = js ''ok'', contentType = [] \<rparr>,
      [RateLimit, Fetch, Sleep 2000, Fetch, Sleep 4000, Fetch])
   \<and> sleeps (snd (fetchWithRateLimit (thenOk 2 429 [] (js ''ok'')))) = [2000, 4000]
   \<and> fetches (snd (fetchWithRateLimit (thenOk 2 429 [] (js ''ok'')))) = 3"
proof -
  let ?server = "thenOk 2 429 [] (js ''ok'')"
  let ?r = "\<lparr> resp_status = 200, resp_text = js ''ok'', resp_contentType = None \<rparr>"
  have h1: "(2::nat) \<le> 3" by simp
  have h2: "\<forall>i<2. \<exists>r. ?server i = Some r
              \<and> (resp_status r = 429 \<or> (500 \<le> resp_status r \<and> resp_status r \<le> 599))"
    by (simp add: thenOk_def)
  have h3: "?server 2 = Some ?r" by (simp add: thenOk_def)
  have h4: "resp_status ?r \<noteq> 429 \<and> resp_status ?r < 500" by simp
  have upt: "[0..<2] = [0, 1]" by (simp add: upt_rec)
  show ?thesis
    using fetch_retry_schedule[OF h1 h2 h3 h4]
    by (simp add: toResult_def upt sleeps_def fetches_def)
qed

section \<open>Properties of the deduplicator\<close>

lemma dedupeLoop_snoc:
  "dedupeLoop (ps @ [q]) st = dedupeStep q (dedupeLoop ps st)"
  by (induction ps arbitrary: st) simp_all

text \<open>
  Claim C3. Whenever the trimmed reference of an incoming provision \<open>q\<close> is already
  in the map with provision \<open>e\<close>, the entry becomes \<open>q\<close> (its title falling back to
  that of \<open>e\<close>) if the normalised content of \<open>q\<close> is strictly longer, and stays
  \<open>e\<close> (its title falling back to that of \<open>q\<close>) otherwise, equal lengths included;
  the duplicate is counted, and counted as conflicting when the normalised contents differ.
  For two provisions with one reference and normalised contents of 40 and 60 code units
  the one of 60 is retained in either order; an equal-length pair with different content
  keeps the first and gives \<open>conflicting_duplicates = 1\<close>.
\<close>

theorem dedupe_keeps_longer:
  "(dedupeLoop ps ([], \<lparr> duplicate_refs = 0, conflicting_duplicates = 0 \<rparr>) = (byRef, st)
      \<and> mapGet byRef (trim (provision_ref q)) = Some e \<longrightarrow>
    dedupeProvisions (ps @ [q]) =
      (map snd (mapSet byRef (trim (provision_ref q))
         (if length (normalizeWhitespace (content q)) > length (normalizeWhitespace (content e))
          then q \<lparr> title := orElse (title q) (title e) \<rparr>
          else e \<lparr> title := orElse (title e) (title q) \<rparr>)),
       \<lparr> duplicate_refs = duplicate_refs st + 1,
         conflicting_duplicates = conflicting_duplicates st +
           (if normalizeWhitespace (content e) \<noteq> normalizeWhitespace (content q) then 1 else 0) \<rparr>))
   \<and> (trim (provision_ref p) = trim (provision_ref q)
      \<and> length (normalizeWhitespace (content p)) = 40
      \<and> length (normalizeWhitespace (content q)) = 60 \<longrightarrow>
    fst (dedupeProvisions [p, q]) = [q \<lparr> title := orElse (title q) (title p) \<rparr>]
    \<and> fst (dedupeProvisions [q, p]) =
        [q \<lparr> provision_ref := trim (provision_ref q), title := orElse (title q) (title p) \<rparr>])
   \<and> (trim (provision_ref p) = trim (provision_ref q)
      \<and> length (normalizeWhitespace (content p)) = length (normalizeWhitespace (content q))
      \<and> normalizeWhitespace (content p) \<noteq> normalizeWhitespace (content q) \<longrightarrow>
    dedupeProvisions [p, q] =
      ([p \<lparr> provision_ref := trim (provision_ref p), title := orElse (title p) (title q) \<rparr>],
       \<lparr> duplicate_refs = 1, conflicting_duplicates = 1 \<rparr>))"
proof (intro conjI impI)
  assume h: "dedupeLoop ps ([], \<lparr> duplicate_refs = 0, conflicting_duplicates = 0 \<rparr>) = (byRef, st)
      \<and> mapGet byRef (trim (provision_ref q)) = Some e"
  show "dedupeProvisions (ps @ [q]) =
      (map snd (mapSet byRef (trim (provision_ref q))
         (if length (normalizeWhitespace (content q)) > length (normalizeWhitespace (content e))
          then q \<lparr> title := orElse (title q) (title e) \<rparr>
          else e \<lparr> title := orElse (title e) (title q) \<rparr>)),
       \<lparr> duplicate_refs = duplicate_refs st + 1,
         conflicting_duplicates = conflicting_duplicates st +
           (if normalizeWhitespace (content e) \<noteq> normalizeWhitespace (content q) then 1 else 0) \<rparr>)"
    using h
    by (simp add: dedupeProvisions_def dedupeLoop_snoc dedupeStep_def pickPreferredProvision_def
        Let_def)
next
  assume h: "trim (provision_ref p) = trim (provision_ref q)
      \<and> length (normalizeWhitespace (content p)) = 40
      \<and> length (normalizeWhitespace (content q)) = 60"
  show "fst (dedupeProvisions [p, q]) = [q \<lparr> title := orElse (title q) (title p) \<rparr>]"
    using h
    by (simp add: dedupeProvisions_def dedupeStep_def pickPreferredProvision_def Let_def)
  show "fst (dedupeProvisions [q, p]) =
        [q \<lparr> provision_ref := trim (provision_ref q), title := orElse (title q) (title p) \<rparr>]"
    using h
    by (simp add: dedupeProvisions_def dedupeStep_def pickPreferredProvision_def Let_def)
next
  assume h: "trim (provision_ref p) = trim (provision_ref q)
      \<and> length (normalizeWhitespace (content p)) = length (normalizeWhitespace (content q))
      \<and> normalizeWhitespace (content p) \<noteq> normalizeWhitespace (content q)"
  show "dedupeProvisions [p, q] =
      ([p \<lparr> provision_ref := trim (provision_ref p), title := orElse (title p) (title q) \<rparr>],
       \<lparr> duplicate_refs = 1, conflicting_duplicates = 1 \<rparr>)"
    using h
    by (simp add: dedupeProvisions_def dedupeStep_def pickPreferredProvision_def Let_def)
qed


theorem dedupe_keeps_longer_witness:
  "dedupeProvisions ([exampleSeed ''s1'' (Some ''Rules'') ''The Minister may make rules for the Act.''] @
                     [exampleSeed '' s1 '' None ''The Minister may,  by legislative instrument, make the rules.''])
     = ([exampleSeed '' s1 '' (Some ''Rules'') ''The Minister may,  by legislative instrument, make the rules.''],
        \<lparr> duplicate_refs = 1, conflicting_duplicates = 1 \<rparr>)
   \<and> fst (dedupeProvisions
          [exampleSeed '' s1 '' None ''The Minister may,  by legislative instrument, make the rules.'',
           exampleSeed ''s1'' (Some ''Rules'') ''The Minister may make rules for the Act.''])
     = [exampleSeed ''s1'' (Some ''Rules'') ''The Minister may,  by legislative instrument, make the rules.'']
   \<and> dedupeProvisions [exampleSeed ''s2'' None ''abc'', exampleSeed ''s2'' (Some ''T'') ''abd'']
     = ([exampleSeed ''s2'' (Some ''T'') ''abc''], \<lparr> duplicate_refs = 1, conflicting_duplicates = 1 \<rparr>)"
proof -
  let ?a = "exampleSeed ''s1'' (Some ''Rules'') ''The Minister may make rules for the Act.''"
  let ?b = "exampleSeed '' s1 '' None ''The Minister may,  by legislative instrument, make the rules.''"
  let ?c = "exampleSeed ''s2'' None ''abc''"
  let ?d = "exampleSeed ''s2'' (Some ''T'') ''abd''"
  let ?z = "\<lparr> duplicate_refs = 0, conflicting_duplicates = 0 \<rparr>"
  note ev = exampleSeed_def js_def normalizeWhitespace_def isWhiteSpace_def trim_def trimStart_def
    trimEnd_def dedupeStep_def orElse_def Let_def pickPreferredProvision_def
  have la: "length (normalizeWhitespace (content ?a)) = 40" by (simp add: ev)
  have lb: "length (normalizeWhitespace (content ?b)) = 60" by (simp add: ev)
  have rab: "trim (provision_ref ?a) = trim (provision_ref ?b)" by (simp add: ev)
  have h1: "dedupeLoop [?a] ([], ?z) = ([(js ''s1'', ?a)], ?z)
            \<and> mapGet [(js ''s1'', ?a)] (trim (provision_ref ?b)) = Some ?a"
    by (simp add: ev)
  have h3: "trim (provision_ref ?c) = trim (provision_ref ?d)
      \<and> length (normalizeWhitespace (content ?c)) = length (normalizeWhitespace (content ?d))
      \<and> normalizeWhitespace (content ?c) \<noteq> normalizeWhitespace (content ?d)"
    by (simp add: ev)
  have t1: "dedupeProvisions ([?a] @ [?b]) =
      (map snd (mapSet [(js ''s1'', ?a)] (trim (provision_ref ?b))
         (if length (normalizeWhitespace (content ?b)) > length (normalizeWhitespace (content ?a))
          then ?b \<lparr> title := orElse (title ?b) (title ?a) \<rparr>
          else ?a \<lparr> title := orElse (title ?a) (title ?b) \<rparr>)),
       \<lparr> duplicate_refs = duplicate_refs ?z + 1,
         conflicting_duplicates = conflicting_duplicates ?z +
           (if normalizeWhitespace (content ?a) \<noteq> normalizeWhitespace (content ?b) then 1 else 0) \<rparr>)"
    using dedupe_keeps_longer[of "[?a]" "[(js ''s1'', ?a)]" ?z ?b ?a] h1 by blast
  have t2: "fst (dedupeProvisions [?b, ?a]) =
        [?b \<lparr> provision_ref := trim (provision_ref ?b), title := orElse (title ?b) (title ?a) \<rparr>]"
    using dedupe_keeps_longer[of _ _ _ ?b _ ?a] la lb rab by blast
  have t3: "dedupeProvisions [?c, ?d] =
      ([?c \<lparr> provision_ref := trim (provision_ref ?c), title := orElse (title ?c) (title ?d) \<rparr>],
       \<lparr> duplicate_refs = 1, conflicting_duplicates = 1 \<rparr>)"
    using dedupe_keeps_longer[of _ _ _ ?d _ ?c] h3 by blast
  have e1: "?b \<lparr> title := orElse (title ?b) (title ?a) \<rparr> =
            exampleSeed '' s1 '' (Some ''Rules'') ''The Minister may,  by legislative instrument, make the rules.''"
    by (simp add: exampleSeed_def orElse_def)
  have n: "normalizeWhitespace (content ?a) \<noteq> normalizeWhitespace (content ?b)"
    using la lb by auto
  show ?thesis
    apply (intro conjI)
    subgoal using t1 la lb n rab e1 by (simp add: ev)
    subgoal using t2 by (simp add: ev)
    subgoal using t3 by (simp add: ev)
    done
qed


section \<open>Properties of the matcher\<close>

lemma step_shorter: "(p', c') \<in> set (step P p c) \<Longrightarrow> length (snd p') < length (snd p) \<and> c' = c"
  by (cases "(P, p, c)" rule: step.cases) (auto split: if_splits)

lemma in_rmatch_Seq:
  "(p', c') \<in> set (rmatch f (Seq a b) p c) \<longleftrightarrow>
     (\<exists>p1 c1. (p1, c1) \<in> set (rmatch f a p c) \<and> (p', c') \<in> set (rmatch f b p1 c1))"
  by (subst rmatch.simps(6)) auto

lemma in_rmatch_Alt:
  "(p', c') \<in> set (rmatch f (Alt a b) p c) \<longleftrightarrow>
     (p', c') \<in> set (rmatch f a p c) \<or> (p', c') \<in> set (rmatch f b p c)"
  by (subst rmatch.simps(7)) auto

lemma in_rmatch_Rep_none:
  "(p', c') \<in> set (rmatch f (Rep mn (Some 0) g r) p c) \<longleftrightarrow> (p', c') = (p, c)"
  by (subst rmatch.simps(8)) auto

lemma in_rmatch_Rep_pos:
  "mx \<noteq> Some 0 \<Longrightarrow> mn > 0 \<Longrightarrow>
   (p', c') \<in> set (rmatch f (Rep mn mx g r) p c) \<longleftrightarrow>
     (\<exists>p1 c1. (p1, c1) \<in> set (rmatch f r p c) \<and>
        (p', c') \<in> set (rmatch f (Rep (mn - 1) (map_option (\<lambda>k. k - 1) mx) g r) p1 c1))"
  by (subst rmatch.simps(8)) auto

lemma in_rmatch_Rep_zero:
  "mx \<noteq> Some 0 \<Longrightarrow>
   (p', c') \<in> set (rmatch f (Rep 0 mx g r) p c) \<longleftrightarrow>
     (p', c') = (p, c) \<or>
     (\<exists>p1 c1. (p1, c1) \<in> set (rmatch f r p c) \<and> length (snd p1) < length (snd p) \<and>
        (p', c') \<in> set (rmatch f (Rep 0 (map_option (\<lambda>k. k - 1) mx) g r) p1 c1))"
  by (subst rmatch.simps(8)) (auto simp: Let_def split: if_splits)

lemma in_rmatch_Grp:
  "(p', c') \<in> set (rmatch f (Grp n r) p c) \<longleftrightarrow>
     (\<exists>c1. (p', c1) \<in> set (rmatch f r p c) \<and> c' = c1(n := Some (consumed p p')))"
  by (subst rmatch.simps(9)) auto

lemma in_rmatch_Look:
  "(p', c') \<in> set (rmatch f (Look r) p c) \<Longrightarrow>
     p' = p \<and> (\<exists>p1. (p1, c') \<in> set (rmatch f r p c))"
proof -
  assume a: "(p', c') \<in> set (rmatch f (Look r) p c)"
  show ?thesis
  proof (cases "rmatch f r p c")
    case Nil
    then show ?thesis using a by (simp add: rmatch.simps(13))
  next
    case (Cons x xs)
    obtain p1 c1 where x: "x = (p1, c1)" by (cases x)
    have "(p1, c1) \<in> set (rmatch f r p c)" using Cons x by simp
    moreover have "p' = p \<and> c' = c1" using a Cons x by (simp add: rmatch.simps(13))
    ultimately show ?thesis by blast
  qed
qed

lemmas rmatch_atoms = rmatch.simps(1-5) rmatch.simps(10-12)

lemma rmatch_induct2 [case_names Eps Ch Dot Set NSet Seq Alt RepNone RepPos RepZero Grp Bol Eol WordB Look]:
  assumes "\<And>f p c. P f Eps p c"
    and "\<And>f x p c. P f (Ch x) p c"
    and "\<And>f p c. P f Dot p c"
    and "\<And>f cs p c. P f (Set cs) p c"
    and "\<And>f cs p c. P f (NSet cs) p c"
    and "\<And>f a b p c. P f a p c \<Longrightarrow>
           (\<And>p1 c1. (p1, c1) \<in> set (rmatch f a p c) \<Longrightarrow> P f b p1 c1) \<Longrightarrow> P f (Seq a b) p c"
    and "\<And>f a b p c. P f a p c \<Longrightarrow> P f b p c \<Longrightarrow> P f (Alt a b) p c"
    and "\<And>f mn g r p c. P f (Rep mn (Some 0) g r) p c"
    and "\<And>f mn mx g r p c. mx \<noteq> Some 0 \<Longrightarrow> mn > 0 \<Longrightarrow> P f r p c \<Longrightarrow>
           (\<And>p1 c1. (p1, c1) \<in> set (rmatch f r p c) \<Longrightarrow>
              P f (Rep (mn - 1) (map_option (\<lambda>k. k - 1) mx) g r) p1 c1) \<Longrightarrow>
           P f (Rep mn mx g r) p c"
    and "\<And>f mx g r p c. mx \<noteq> Some 0 \<Longrightarrow> P f r p c \<Longrightarrow>
           (\<And>p1 c1. (p1, c1) \<in> set (rmatch f r p c) \<Longrightarrow> length (snd p1) < length (snd p) \<Longrightarrow>
              P f (Rep 0 (map_option (\<lambda>k. k - 1) mx) g r) p1 c1) \<Longrightarrow>
           P f (Rep 0 mx g r) p c"
    and "\<And>f n r p c. P f r p c \<Longrightarrow> P f (Grp n r) p c"
    and "\<And>f p c. P f Bol p c"
    and "\<And>f p c. P f Eol p c"
    and "\<And>f p c. P f WordB p c"
    and "\<And>f r p c. P f r p c \<Longrightarrow> P f (Look r) p c"
  shows "P f r p c"
proof (induction f r p c rule: rmatch.induct)
  case (1 f p c)
  show ?case by (rule assms(1))
next
  case (2 f x p c)
  show ?case by (rule assms(2))
next
  case (3 f p c)
  show ?case by (rule assms(3))
next
  case (4 f cs p c)
  show ?case by (rule assms(4))
next
  case (5 f cs p c)
  show ?case by (rule assms(5))
next
  case (6 f a b p c)
  show ?case
  proof (rule assms(6))
    show "P f a p c" by (rule "6.IH"(1))
  next
    fix p1 c1 assume "(p1, c1) \<in> set (rmatch f a p c)"
    then show "P f b p1 c1" by (rule "6.IH"(2)[OF _ refl])
  qed
next
  case (7 f a b p c)
  show ?case by (rule assms(7)[OF "7.IH"])
next
  case (8 f mn mx g r p c)
  show ?case
  proof (cases "mx = Some 0")
    case True
    show ?thesis unfolding True by (rule assms(8))
  next
    case False
    show ?thesis
    proof (cases "mn > 0")
      case True
      show ?thesis
      proof (rule assms(9)[OF False True])
        show "P f r p c" by (rule "8.IH"(1)[OF False True])
      next
        fix p1 c1 assume "(p1, c1) \<in> set (rmatch f r p c)"
        then show "P f (Rep (mn - 1) (map_option (\<lambda>k. k - 1) mx) g r) p1 c1"
          by (rule "8.IH"(2)[OF False True _ refl])
      qed
    next
      case mn0: False
      then have z: "mn = 0" by simp
      show ?thesis unfolding z
      proof (rule assms(10)[OF False])
        show "P f r p c" by (rule "8.IH"(3)[OF False mn0])
      next
        fix p1 c1 assume "(p1, c1) \<in> set (rmatch f r p c)" "length (snd p1) < length (snd p)"
        then show "P f (Rep 0 (map_option (\<lambda>k. k - 1) mx) g r) p1 c1"
          by (rule "8.IH"(4)[OF False mn0 _ refl])
      qed
    qed
  qed
next
  case (9 f n r p c)
  show ?case by (rule assms(11)[OF "9.IH"])
next
  case (10 f p c)
  show ?case by (rule assms(12))
next
  case (11 f p c)
  show ?case by (rule assms(13))
next
  case (12 f p c)
  show ?case by (rule assms(14))
next
  case (13 f r p c)
  show ?case by (rule assms(15)[OF "13.IH"])
qed

lemma rmatch_le:
  "(p', c') \<in> set (rmatch f r p c) \<Longrightarrow> length (snd p') \<le> length (snd p)"
proof (induction f r p c arbitrary: p' c' rule: rmatch_induct2)
  case (Seq f a b p c)
  from Seq.prems obtain p1 c1 where r1: "(p1, c1) \<in> set (rmatch f a p c)"
    and r2: "(p', c') \<in> set (rmatch f b p1 c1)" unfolding in_rmatch_Seq by blast
  show ?case using Seq.IH(1)[OF r1] Seq.IH(2)[OF r1 r2] by simp
next
  case (Alt f a b p c)
  then show ?case unfolding in_rmatch_Alt by blast
next
  case (RepNone f mn g r p c)
  then show ?case by (simp add: in_rmatch_Rep_none)
next
  case (RepPos f mn mx g r p c)
  from RepPos.prems obtain p1 c1 where r1: "(p1, c1) \<in> set (rmatch f r p c)"
    and r2: "(p', c') \<in> set (rmatch f (Rep (mn - 1) (map_option (\<lambda>k. k - 1) mx) g r) p1 c1)"
    unfolding in_rmatch_Rep_pos[OF RepPos.hyps] by blast
  show ?case using RepPos.IH(1)[OF r1] RepPos.IH(2)[OF r1 r2] by simp
next
  case (RepZero f mx g r p c)
  from RepZero.prems consider "(p', c') = (p, c)"
    | p1 c1 where "(p1, c1) \<in> set (rmatch f r p c)" "length (snd p1) < length (snd p)"
      "(p', c') \<in> set (rmatch f (Rep 0 (map_option (\<lambda>k. k - 1) mx) g r) p1 c1)"
    unfolding in_rmatch_Rep_zero[OF RepZero.hyps] by blast
  then show ?case
  proof cases
    case 1
    then show ?thesis by simp
  next
    case 2
    show ?thesis using RepZero.IH(2)[OF 2(1,2,3)] 2(2) by simp
  qed
next
  case (Grp f n r p c)
  then show ?case unfolding in_rmatch_Grp by blast
next
  case (Look f r p c)
  then show ?case by (auto dest: in_rmatch_Look)
qed (auto simp: rmatch_atoms dest: step_shorter split: if_splits)

lemma rmatch_lt:
  "nonnull r \<Longrightarrow> (p', c') \<in> set (rmatch f r p c) \<Longrightarrow> length (snd p') < length (snd p)"
proof (induction f r p c arbitrary: p' c' rule: rmatch_induct2)
  case (Seq f a b p c)
  from Seq.prems(2) obtain p1 c1 where r1: "(p1, c1) \<in> set (rmatch f a p c)"
    and r2: "(p', c') \<in> set (rmatch f b p1 c1)" unfolding in_rmatch_Seq by blast
  have le1: "length (snd p1) \<le> length (snd p)" using rmatch_le[OF r1] .
  have le2: "length (snd p') \<le> length (snd p1)" using rmatch_le[OF r2] .
  from Seq.prems(1) have "nonnull a \<or> nonnull b" by simp
  then show ?case
  proof
    assume na: "nonnull a"
    have "length (snd p1) < length (snd p)" using Seq.IH(1)[OF na r1] .
    then show ?thesis using le2 by simp
  next
    assume nb: "nonnull b"
    have "length (snd p') < length (snd p1)" using Seq.IH(2)[OF r1 nb r2] .
    then show ?thesis using le1 by simp
  qed
next
  case (Alt f a b p c)
  from Alt.prems(1) have na: "nonnull a" and nb: "nonnull b" by simp_all
  from Alt.prems(2) have "(p', c') \<in> set (rmatch f a p c) \<or> (p', c') \<in> set (rmatch f b p c)"
    unfolding in_rmatch_Alt .
  then show ?case using Alt.IH(1)[OF na] Alt.IH(2)[OF nb] by blast
next
  case (RepPos f mn mx g r p c)
  from RepPos.prems(2) obtain p1 c1 where r1: "(p1, c1) \<in> set (rmatch f r p c)"
    and r2: "(p', c') \<in> set (rmatch f (Rep (mn - 1) (map_option (\<lambda>k. k - 1) mx) g r) p1 c1)"
    unfolding in_rmatch_Rep_pos[OF RepPos.hyps] by blast
  have nr: "nonnull r" using RepPos.prems(1) by simp
  have "length (snd p1) < length (snd p)" using RepPos.IH(1)[OF nr r1] .
  then show ?case using rmatch_le[OF r2] by simp
next
  case (Grp f n r p c)
  from Grp.prems(1) have nr: "nonnull r" by simp
  from Grp.prems(2) obtain c1 where "(p', c1) \<in> set (rmatch f r p c)"
    unfolding in_rmatch_Grp by blast
  then show ?case using Grp.IH[OF nr] by blast
next
  case (Ch f x p c)
  then show ?case by (auto simp: rmatch_atoms dest: step_shorter)
next
  case (Dot f p c)
  then show ?case by (auto simp: rmatch_atoms dest: step_shorter)
next
  case (Set f cs p c)
  then show ?case by (auto simp: rmatch_atoms dest: step_shorter)
next
  case (NSet f cs p c)
  then show ?case by (auto simp: rmatch_atoms dest: step_shorter)
next
  case (Eps f p c)
  from Eps(1) show ?case by simp
next
  case (RepNone f mn g r p c)
  from RepNone(1) show ?case by simp
next
  case (RepZero f mx g r p c)
  from RepZero.prems(1) show ?case by simp
next
  case (Bol f p c)
  from Bol(1) show ?case by simp
next
  case (Eol f p c)
  from Eol(1) show ?case by simp
next
  case (WordB f p c)
  from WordB(1) show ?case by simp
next
  case (Look f r p c)
  from Look.prems(1) show ?case by simp
qed

lemma consumed_nonempty:
  "length (snd p') < length (snd p) \<Longrightarrow> consumed p p' \<noteq> []"
  by (auto simp: consumed_def)

lemma rmatch_capture:
  "groupsNonnull k r \<Longrightarrow> capNonEmpty k c \<or> setsGroup k r \<Longrightarrow>
   (p', c') \<in> set (rmatch f r p c) \<Longrightarrow> capNonEmpty k c'"
proof (induction f r p c arbitrary: p' c' rule: rmatch_induct2)
  case (Seq f a b p c)
  from Seq.prems(3) obtain p1 c1 where r1: "(p1, c1) \<in> set (rmatch f a p c)"
    and r2: "(p', c') \<in> set (rmatch f b p1 c1)" unfolding in_rmatch_Seq by blast
  from Seq.prems(1) have ga: "groupsNonnull k a" and gb: "groupsNonnull k b" by simp_all
  from Seq.prems(2) consider "capNonEmpty k c \<or> setsGroup k a" | "setsGroup k b" by auto
  then show ?case
  proof cases
    case 1
    have "capNonEmpty k c1" using Seq.IH(1)[OF ga 1 r1] .
    then show ?thesis using Seq.IH(2)[OF r1 gb _ r2] by blast
  next
    case 2
    then show ?thesis using Seq.IH(2)[OF r1 gb _ r2] by blast
  qed
next
  case (Alt f a b p c)
  from Alt.prems(1) have ga: "groupsNonnull k a" and gb: "groupsNonnull k b" by simp_all
  from Alt.prems(2) have sa: "capNonEmpty k c \<or> setsGroup k a"
    and sb: "capNonEmpty k c \<or> setsGroup k b" by auto
  from Alt.prems(3) have "(p', c') \<in> set (rmatch f a p c) \<or> (p', c') \<in> set (rmatch f b p c)"
    unfolding in_rmatch_Alt .
  then show ?case using Alt.IH(1)[OF ga sa] Alt.IH(2)[OF gb sb] by blast
next
  case (RepNone f mn g r p c)
  then show ?case by (simp add: in_rmatch_Rep_none)
next
  case (RepPos f mn mx g r p c)
  from RepPos.prems(3) obtain p1 c1 where r1: "(p1, c1) \<in> set (rmatch f r p c)"
    and r2: "(p', c') \<in> set (rmatch f (Rep (mn - 1) (map_option (\<lambda>k. k - 1) mx) g r) p1 c1)"
    unfolding in_rmatch_Rep_pos[OF RepPos.hyps] by blast
  from RepPos.prems(1) have gr: "groupsNonnull k r" by simp
  from RepPos.prems(2) have pc: "capNonEmpty k c" by simp
  have "capNonEmpty k c1" using RepPos.IH(1)[OF gr _ r1] pc by blast
  then show ?case using RepPos.IH(2)[OF r1 _ _ r2] gr by simp
next
  case (RepZero f mx g r p c)
  from RepZero.prems(1) have gr: "groupsNonnull k r" by simp
  from RepZero.prems(2) have pc: "capNonEmpty k c" by simp
  from RepZero.prems(3) consider "(p', c') = (p, c)"
    | p1 c1 where "(p1, c1) \<in> set (rmatch f r p c)" "length (snd p1) < length (snd p)"
      "(p', c') \<in> set (rmatch f (Rep 0 (map_option (\<lambda>k. k - 1) mx) g r) p1 c1)"
    unfolding in_rmatch_Rep_zero[OF RepZero.hyps] by blast
  then show ?case
  proof cases
    case 1
    then show ?thesis using pc by simp
  next
    case 2
    have "capNonEmpty k c1" using RepZero.IH(1)[OF gr _ 2(1)] pc by blast
    then show ?thesis using RepZero.IH(2)[OF 2(1,2) _ _ 2(3)] gr by simp
  qed
next
  case (Grp f n r p c)
  from Grp.prems(3) obtain c1 where r1: "(p', c1) \<in> set (rmatch f r p c)"
    and c': "c' = c1(n := Some (consumed p p'))" unfolding in_rmatch_Grp by blast
  from Grp.prems(1) have gr: "groupsNonnull k r" by simp
  show ?case
  proof (cases "n = k")
    case True
    then have "nonnull r" using Grp.prems(1) by simp
    then have "length (snd p') < length (snd p)" using rmatch_lt r1 by blast
    then show ?thesis using c' True by (simp add: capNonEmpty_def consumed_nonempty)
  next
    case False
    then have "capNonEmpty k c \<or> setsGroup k r" using Grp.prems(2) by simp
    then have "capNonEmpty k c1" using Grp.IH[OF gr _ r1] by blast
    then show ?thesis using c' False by (simp add: capNonEmpty_def)
  qed
next
  case (Look f r p c)
  from Look.prems(1) have gr: "groupsNonnull k r" by simp
  from Look.prems(2) have pc: "capNonEmpty k c" by simp
  from in_rmatch_Look[OF Look.prems(3)] obtain p1 where "(p1, c') \<in> set (rmatch f r p c)"
    by blast
  then show ?case using Look.IH[OF gr _] pc by blast
next
  case (Eps f p c)
  then show ?case by (simp add: rmatch_atoms)
next
  case (Ch f x p c)
  then show ?case by (auto simp: rmatch_atoms dest: step_shorter)
next
  case (Dot f p c)
  then show ?case by (auto simp: rmatch_atoms dest: step_shorter)
next
  case (Set f cs p c)
  then show ?case by (auto simp: rmatch_atoms dest: step_shorter)
next
  case (NSet f cs p c)
  then show ?case by (auto simp: rmatch_atoms dest: step_shorter)
next
  case (Bol f p c)
  then show ?case by (auto simp: rmatch_atoms split: if_splits)
next
  case (Eol f p c)
  then show ?case by (auto simp: rmatch_atoms split: if_splits)
next
  case (WordB f p c)
  then show ?case by (auto simp: rmatch_atoms split: if_splits)
qed

lemma searchFrom_Some:
  "searchFrom f r pv s i = Some m \<Longrightarrow>
     \<exists>p res j. res \<in> set (rmatch f r p noCaps) \<and> m = mkMatch j p res"
proof (induction s arbitrary: pv i)
  case Nil
  show ?case
  proof (cases "rmatch f r (pv, []) noCaps")
    case empty: Nil
    then show ?thesis using Nil by simp
  next
    case (Cons res rest)
    then have "res \<in> set (rmatch f r (pv, []) noCaps)" by simp
    moreover have "m = mkMatch i (pv, []) res" using Nil Cons by simp
    ultimately show ?thesis by blast
  qed
next
  case step: (Cons x xs)
  show ?case
  proof (cases "rmatch f r (pv, x # xs) noCaps")
    case Nil
    then show ?thesis using step by simp
  next
    case (Cons res rest)
    then have "res \<in> set (rmatch f r (pv, x # xs) noCaps)" by simp
    moreover have "m = mkMatch i (pv, x # xs) res" using step.prems Cons by simp
    ultimately show ?thesis by blast
  qed
qed

lemma regexMatch_group_nonempty:
  assumes "regexMatch f r s = Some m" and "groupsNonnull k r" and "setsGroup k r" and "k \<noteq> 0"
  shows "\<exists>w. m_groups m k = Some w \<and> w \<noteq> []"
proof -
  from assms(1) obtain p res j where res: "res \<in> set (rmatch f r p noCaps)"
    and m: "m = mkMatch j p res"
    unfolding regexMatch_def using searchFrom_Some by blast
  obtain p' c' where pc: "res = (p', c')" by (cases res)
  have "capNonEmpty k c'" using rmatch_capture[OF assms(2) _ res[unfolded pc]] assms(3) by blast
  then show ?thesis using m pc assms(4) by (simp add: mkMatch_def capNonEmpty_def)
qed


lemma searchFrom_match:
  "searchFrom f r pv s i = Some m \<Longrightarrow>
     isMatchOf f r m \<and> length (snd (m_end m)) \<le> length s
     \<and> (nonnull r \<longrightarrow> length (snd (m_end m)) < length s)"
proof (induction s arbitrary: pv i)
  case Nil
  show ?case
  proof (cases "rmatch f r (pv, []) noCaps")
    case empty: Nil
    then show ?thesis using Nil by simp
  next
    case (Cons res rest)
    then have in_res: "res \<in> set (rmatch f r (pv, []) noCaps)" by simp
    have m: "m = mkMatch i (pv, []) res" using Nil Cons by simp
    obtain p' c' where res: "res = (p', c')" by (cases res)
    have le: "length (snd p') \<le> 0" using rmatch_le[of p' c' f r "(pv, [])" noCaps] in_res res by simp
    have lt: "nonnull r \<Longrightarrow> False" using rmatch_lt[of r p' c' f "(pv, [])" noCaps] in_res res by simp
    have im: "isMatchOf f r m" unfolding isMatchOf_def using in_res m by blast
    have e: "m_end m = p'" using m res by (simp add: mkMatch_def)
    show ?thesis using im e le lt by auto
  qed
next
  case step: (Cons x xs)
  show ?case
  proof (cases "rmatch f r (pv, x # xs) noCaps")
    case Nil
    then have "searchFrom f r (Some x) xs (Suc i) = Some m" using step.prems by simp
    from step.IH[OF this] show ?thesis by auto
  next
    case (Cons res rest)
    then have in_res: "res \<in> set (rmatch f r (pv, x # xs) noCaps)" by simp
    have m: "m = mkMatch i (pv, x # xs) res" using step.prems Cons by simp
    obtain p' c' where res: "res = (p', c')" by (cases res)
    have le: "length (snd p') \<le> length (x # xs)"
      using rmatch_le[of p' c' f r "(pv, x # xs)" noCaps] in_res res by simp
    have lt: "nonnull r \<Longrightarrow> length (snd p') < length (x # xs)"
      using rmatch_lt[of r p' c' f "(pv, x # xs)" noCaps] in_res res by simp
    have im: "isMatchOf f r m" unfolding isMatchOf_def using in_res m by blast
    have e: "m_end m = p'" using m res by (simp add: mkMatch_def)
    show ?thesis using im e le lt by auto
  qed
qed

lemma isMatchOf_group:
  assumes "isMatchOf f r m" and "groupsNonnull k r" and "setsGroup k r" and "k \<noteq> 0"
  shows "\<exists>w. m_groups m k = Some w"
proof -
  from assms(1) obtain p res j where res: "res \<in> set (rmatch f r p noCaps)"
    and m: "m = mkMatch j p res" unfolding isMatchOf_def by blast
  obtain p' c' where pc: "res = (p', c')" by (cases res)
  have "capNonEmpty k c'" using rmatch_capture[OF assms(2) _ res[unfolded pc]] assms(3) by blast
  then show ?thesis using m pc assms(4) by (auto simp: mkMatch_def capNonEmpty_def)
qed


section \<open>What a match reads\<close>

lemma reaches_refl: "reaches p [] p"
  by (simp add: reaches_def)

lemma reaches_trans: "reaches p w1 p1 \<Longrightarrow> reaches p1 w2 p' \<Longrightarrow> reaches p (w1 @ w2) p'"
  by (auto simp: reaches_def)

lemma reaches_consumed: "reaches p w p' \<Longrightarrow> consumed p p' = w"
  by (simp add: reaches_def consumed_def)

lemma reaches_length: "reaches p w p' \<Longrightarrow> length (snd p) = length w + length (snd p')"
  by (simp add: reaches_def)

lemma step_reaches:
  "(p', c') \<in> set (step P p c) \<Longrightarrow> \<exists>x. P x \<and> reaches p [x] p' \<and> c' = c"
  by (cases "(P, p, c)" rule: step.cases) (auto simp: reaches_def split: if_splits)

lemma rmatch_reaches:
  "(p', c') \<in> set (rmatch f r p c) \<Longrightarrow>
     \<exists>w. reaches p w p' \<and> (\<forall>x \<in> set w. mayConsume f r x) \<and> capStep f r c c'"
proof (induction f r p c arbitrary: p' c' rule: rmatch_induct2)
  case (Seq f a b p c)
  from Seq.prems obtain p1 c1 where r1: "(p1, c1) \<in> set (rmatch f a p c)"
    and r2: "(p', c') \<in> set (rmatch f b p1 c1)" unfolding in_rmatch_Seq by blast
  from Seq.IH(1)[OF r1] obtain w1 where w1: "reaches p w1 p1" "\<forall>x \<in> set w1. mayConsume f a x"
    "capStep f a c c1" by blast
  from Seq.IH(2)[OF r1 r2] obtain w2 where w2: "reaches p1 w2 p'" "\<forall>x \<in> set w2. mayConsume f b x"
    "capStep f b c1 c'" by blast
  have "reaches p (w1 @ w2) p'" using w1(1) w2(1) by (rule reaches_trans)
  moreover have "\<forall>x \<in> set (w1 @ w2). mayConsume f (Seq a b) x" using w1(2) w2(2) by auto
  moreover have "capStep f (Seq a b) c c'"
    unfolding capStep_def
  proof
    fix k
    from w1(3) have a: "c1 k = c k \<or> (\<exists>v. c1 k = Some v \<and> (\<forall>x \<in> set v. mayCapture f k a x))"
      unfolding capStep_def by blast
    from w2(3) have b: "c' k = c1 k \<or> (\<exists>v. c' k = Some v \<and> (\<forall>x \<in> set v. mayCapture f k b x))"
      unfolding capStep_def by blast
    from a b show "c' k = c k \<or> (\<exists>v. c' k = Some v \<and> (\<forall>x \<in> set v. mayCapture f k (Seq a b) x))"
      by auto
  qed
  ultimately show ?case by blast
next
  case (Alt f a b p c)
  from Alt.prems have "(p', c') \<in> set (rmatch f a p c) \<or> (p', c') \<in> set (rmatch f b p c)"
    unfolding in_rmatch_Alt .
  then show ?case
  proof
    assume "(p', c') \<in> set (rmatch f a p c)"
    from Alt.IH(1)[OF this] obtain w where "reaches p w p'" "\<forall>x \<in> set w. mayConsume f a x"
      "capStep f a c c'" by blast
    then show ?thesis unfolding capStep_def by (intro exI[of _ w]) auto
  next
    assume "(p', c') \<in> set (rmatch f b p c)"
    from Alt.IH(2)[OF this] obtain w where "reaches p w p'" "\<forall>x \<in> set w. mayConsume f b x"
      "capStep f b c c'" by blast
    then show ?thesis unfolding capStep_def by (intro exI[of _ w]) auto
  qed
next
  case (RepNone f mn g r p c)
  then have "p' = p" "c' = c" by (simp_all add: in_rmatch_Rep_none)
  then show ?case by (intro exI[of _ "[]"]) (simp add: reaches_refl capStep_def)
next
  case (RepPos f mn mx g r p c)
  from RepPos.prems obtain p1 c1 where r1: "(p1, c1) \<in> set (rmatch f r p c)"
    and r2: "(p', c') \<in> set (rmatch f (Rep (mn - 1) (map_option (\<lambda>k. k - 1) mx) g r) p1 c1)"
    unfolding in_rmatch_Rep_pos[OF RepPos.hyps] by blast
  from RepPos.IH(1)[OF r1] obtain w1 where w1: "reaches p w1 p1" "\<forall>x \<in> set w1. mayConsume f r x"
    "capStep f r c c1" by blast
  from RepPos.IH(2)[OF r1 r2] obtain w2 where w2: "reaches p1 w2 p'"
    "\<forall>x \<in> set w2. mayConsume f (Rep (mn - 1) (map_option (\<lambda>k. k - 1) mx) g r) x"
    "capStep f (Rep (mn - 1) (map_option (\<lambda>k. k - 1) mx) g r) c1 c'" by blast
  have "reaches p (w1 @ w2) p'" using w1(1) w2(1) by (rule reaches_trans)
  moreover have "\<forall>x \<in> set (w1 @ w2). mayConsume f (Rep mn mx g r) x" using w1(2) w2(2) by auto
  moreover have "capStep f (Rep mn mx g r) c c'"
    unfolding capStep_def
  proof
    fix k
    from w1(3) have a: "c1 k = c k \<or> (\<exists>v. c1 k = Some v \<and> (\<forall>x \<in> set v. mayCapture f k r x))"
      unfolding capStep_def by blast
    from w2(3) have b: "c' k = c1 k \<or> (\<exists>v. c' k = Some v \<and> (\<forall>x \<in> set v. mayCapture f k r x))"
      unfolding capStep_def by simp
    from a b show "c' k = c k \<or> (\<exists>v. c' k = Some v \<and> (\<forall>x \<in> set v. mayCapture f k (Rep mn mx g r) x))"
      by auto
  qed
  ultimately show ?case by blast
next
  case (RepZero f mx g r p c)
  from RepZero.prems consider "(p', c') = (p, c)"
    | p1 c1 where "(p1, c1) \<in> set (rmatch f r p c)" "length (snd p1) < length (snd p)"
      "(p', c') \<in> set (rmatch f (Rep 0 (map_option (\<lambda>k. k - 1) mx) g r) p1 c1)"
    unfolding in_rmatch_Rep_zero[OF RepZero.hyps] by blast
  then show ?case
  proof cases
    case 1
    then show ?thesis by (intro exI[of _ "[]"]) (simp add: reaches_refl capStep_def)
  next
    case 2
    from RepZero.IH(1)[OF 2(1)] obtain w1 where w1: "reaches p w1 p1"
      "\<forall>x \<in> set w1. mayConsume f r x" "capStep f r c c1" by blast
    from RepZero.IH(2)[OF 2(1,2,3)] obtain w2 where w2: "reaches p1 w2 p'"
      "\<forall>x \<in> set w2. mayConsume f (Rep 0 (map_option (\<lambda>k. k - 1) mx) g r) x"
      "capStep f (Rep 0 (map_option (\<lambda>k. k - 1) mx) g r) c1 c'" by blast
    have "reaches p (w1 @ w2) p'" using w1(1) w2(1) by (rule reaches_trans)
    moreover have "\<forall>x \<in> set (w1 @ w2). mayConsume f (Rep 0 mx g r) x" using w1(2) w2(2) by auto
    moreover have "capStep f (Rep 0 mx g r) c c'"
      unfolding capStep_def
    proof
      fix k
      from w1(3) have a: "c1 k = c k \<or> (\<exists>v. c1 k = Some v \<and> (\<forall>x \<in> set v. mayCapture f k r x))"
        unfolding capStep_def by blast
      from w2(3) have b: "c' k = c1 k \<or> (\<exists>v. c' k = Some v \<and> (\<forall>x \<in> set v. mayCapture f k r x))"
        unfolding capStep_def by simp
      from a b show "c' k = c k \<or> (\<exists>v. c' k = Some v \<and> (\<forall>x \<in> set v. mayCapture f k (Rep 0 mx g r) x))"
        by auto
    qed
    ultimately show ?thesis by blast
  qed
next
  case (Grp f n r p c)
  from Grp.prems obtain c1 where r1: "(p', c1) \<in> set (rmatch f r p c)"
    and c': "c' = c1(n := Some (consumed p p'))" unfolding in_rmatch_Grp by blast
  from Grp.IH[OF r1] obtain w where w: "reaches p w p'" "\<forall>x \<in> set w. mayConsume f r x"
    "capStep f r c c1" by blast
  have cw: "consumed p p' = w" using w(1) by (rule reaches_consumed)
  have "capStep f (Grp n r) c c'"
    unfolding capStep_def
  proof
    fix k
    from w(3) have a: "c1 k = c k \<or> (\<exists>v. c1 k = Some v \<and> (\<forall>x \<in> set v. mayCapture f k r x))"
      unfolding capStep_def by blast
    show "c' k = c k \<or> (\<exists>v. c' k = Some v \<and> (\<forall>x \<in> set v. mayCapture f k (Grp n r) x))"
    proof (cases "k = n")
      case True
      then show ?thesis using c' cw w(2) by auto
    next
      case False
      then show ?thesis using c' a by auto
    qed
  qed
  then show ?case using w(1,2) by auto
next
  case (Look f r p c)
  from in_rmatch_Look[OF Look.prems] obtain p1 where pp: "p' = p"
    and r1: "(p1, c') \<in> set (rmatch f r p c)" by blast
  from Look.IH[OF r1] have "capStep f r c c'" by blast
  then have "capStep f (Look r) c c'" unfolding capStep_def by simp
  then show ?case using pp by (intro exI[of _ "[]"]) (simp add: reaches_refl)
next
  case (Eps f p c)
  then show ?case by (intro exI[of _ "[]"]) (simp add: rmatch_atoms reaches_refl capStep_def)
next
  case (Ch f x p c)
  from Ch.prems obtain y where "(if ignoreCase f then canon x = canon y else x = y)"
    "reaches p [y] p'" "c' = c"
    unfolding rmatch_atoms using step_reaches by blast
  then show ?case by (intro exI[of _ "[y]"]) (simp add: capStep_def)
next
  case (Dot f p c)
  from Dot.prems obtain y where "dotAll f \<or> \<not> isLineTerminator y" "reaches p [y] p'" "c' = c"
    unfolding rmatch_atoms using step_reaches by blast
  then show ?case by (intro exI[of _ "[y]"]) (simp add: capStep_def)
next
  case (Set f cs p c)
  from Set.prems obtain y where "\<exists>k \<in> set cs. clsMatch (ignoreCase f) k y" "reaches p [y] p'" "c' = c"
    unfolding rmatch_atoms using step_reaches by blast
  then show ?case by (intro exI[of _ "[y]"]) (simp add: capStep_def)
next
  case (NSet f cs p c)
  from NSet.prems obtain y where "\<not> (\<exists>k \<in> set cs. clsMatch (ignoreCase f) k y)" "reaches p [y] p'"
    "c' = c"
    unfolding rmatch_atoms using step_reaches by blast
  then show ?case by (intro exI[of _ "[y]"]) (simp add: capStep_def)
next
  case (Bol f p c)
  then have "p' = p" "c' = c" by (auto simp: rmatch_atoms split: if_splits)
  then show ?case by (intro exI[of _ "[]"]) (simp add: reaches_refl capStep_def)
next
  case (Eol f p c)
  then have "p' = p" "c' = c" by (auto simp: rmatch_atoms split: if_splits)
  then show ?case by (intro exI[of _ "[]"]) (simp add: reaches_refl capStep_def)
next
  case (WordB f p c)
  then have "p' = p" "c' = c" by (auto simp: rmatch_atoms split: if_splits)
  then show ?case by (intro exI[of _ "[]"]) (simp add: reaches_refl capStep_def)
qed

lemma isMatchOf_group_chars:
  assumes "isMatchOf f r m" and "k \<noteq> 0" and "m_groups m k = Some v"
  shows "\<forall>x \<in> set v. mayCapture f k r x"
proof -
  from assms(1) obtain p res j where res: "res \<in> set (rmatch f r p noCaps)"
    and m: "m = mkMatch j p res" unfolding isMatchOf_def by blast
  obtain p' c' where pc: "res = (p', c')" by (cases res)
  from rmatch_reaches[OF res[unfolded pc]] have "capStep f r noCaps c'" by blast
  then have "c' k = noCaps k \<or> (\<exists>v. c' k = Some v \<and> (\<forall>x \<in> set v. mayCapture f k r x))"
    unfolding capStep_def by blast
  moreover have "c' k = Some v" using assms(2,3) m pc by (simp add: mkMatch_def)
  ultimately show ?thesis by (auto simp: noCaps_def)
qed

lemma isMatchOf_whole_chars:
  assumes "isMatchOf f r m" and "m_groups m 0 = Some v"
  shows "\<forall>x \<in> set v. mayConsume f r x"
proof -
  from assms(1) obtain p res j where res: "res \<in> set (rmatch f r p noCaps)"
    and m: "m = mkMatch j p res" unfolding isMatchOf_def by blast
  obtain p' c' where pc: "res = (p', c')" by (cases res)
  from rmatch_reaches[OF res[unfolded pc]] obtain w where w: "reaches p w p'"
    "\<forall>x \<in> set w. mayConsume f r x" by blast
  have "v = consumed p p'" using assms(2) m pc by (simp add: mkMatch_def)
  then show ?thesis using w reaches_consumed by auto
qed

section \<open>Properties of the citation grammar\<close>

lemmas rx_defs = seqs_def lit_def chr_def plus_def star_def opt_def lazyPlus_def times_def
  digit_def space_def sectionWord_def sectionRef_def


lemmas eval_defs = seqs_def lit_def chr_def plus_def star_def opt_def lazyPlus_def times_def
  digit_def space_def flags_i_def flags_none_def canon_def isDigit_def isWhiteSpace_def
  isLineTerminator_def swapCase_def sectionWord_def sectionRef_def noCaps_def consumed_def
  regexMatch_def js_def mkMatch_def rmatch.simps
  ID_BASED_def ID_PARTS_def FULL_WITH_ACT_NUMBER_def FULL_CITATION_def SHORT_CITATION_def
  TRAILING_WITH_ACT_NUMBER_def TRAILING_SECTION_def SECTION_REF_def parseCitation_def
  parseAfterId_def parseSection_def invalidCitation_def
  parseInt_def parseIntU_def trim_def trimStart_def trimEnd_def orUndefined_def



lemma grammar_groups:
  "groupsNonnull 2 ID_BASED \<and> setsGroup 2 ID_BASED"
  "groupsNonnull 1 ID_BASED \<and> setsGroup 1 ID_BASED"
  "groupsNonnull 1 FULL_WITH_ACT_NUMBER \<and> setsGroup 1 FULL_WITH_ACT_NUMBER"
  "groupsNonnull 1 FULL_CITATION \<and> setsGroup 1 FULL_CITATION"
  "groupsNonnull 1 SHORT_CITATION \<and> setsGroup 1 SHORT_CITATION"
  "groupsNonnull 4 TRAILING_WITH_ACT_NUMBER \<and> setsGroup 4 TRAILING_WITH_ACT_NUMBER"
  "groupsNonnull 3 TRAILING_SECTION \<and> setsGroup 3 TRAILING_SECTION"
  "groupsNonnull 1 SECTION_REF \<and> setsGroup 1 SECTION_REF"
  by (simp_all add: rx_defs ID_BASED_def FULL_WITH_ACT_NUMBER_def FULL_CITATION_def
      SHORT_CITATION_def TRAILING_WITH_ACT_NUMBER_def TRAILING_SECTION_def SECTION_REF_def)

lemma parseSection_section:
  assumes "w \<noteq> []"
  shows "\<exists>p. parseSection (Some w) t y a ty = Inr p \<and> valid p
              \<and> (\<exists>v. section_c p = Some v \<and> v \<noteq> [])"
proof (cases "regexMatch flags_none SECTION_REF w")
  case None
  then show ?thesis using assms by (simp add: parseSection_def)
next
  case (Some m)
  from regexMatch_group_nonempty[OF Some] grammar_groups(8)
  obtain v where "m_groups m 1 = Some v" "v \<noteq> []" by auto
  then show ?thesis using Some by (simp add: parseSection_def)
qed

lemma grammar_section:
  assumes "regexMatch f r s = Some m" and "groupsNonnull k r \<and> setsGroup k r" and "k \<noteq> 0"
  shows "parseOutcome t0 (parseSection (m_groups m k) t y a ty)"
proof -
  from regexMatch_group_nonempty[OF assms(1) _ _ assms(3)] assms(2)
  obtain w where "m_groups m k = Some w" "w \<noteq> []" by auto
  then show ?thesis using parseSection_section[of w t y a ty] by (auto simp: parseOutcome_def)
qed

lemma parseAfterId_outcome: "parseOutcome t (parseAfterId t)"
proof (cases "regexMatch flags_i FULL_WITH_ACT_NUMBER t")
  case (Some m)
  then show ?thesis using grammar_section[OF Some grammar_groups(3)]
    by (simp add: parseAfterId_def)
next
  case n1: None
  show ?thesis
  proof (cases "regexMatch flags_i FULL_CITATION t")
    case (Some m)
    then show ?thesis using n1 grammar_section[OF Some grammar_groups(4)]
      by (simp add: parseAfterId_def)
  next
    case n2: None
    show ?thesis
    proof (cases "regexMatch flags_i SHORT_CITATION t")
      case (Some m)
      then show ?thesis using n1 n2 grammar_section[OF Some grammar_groups(5)]
        by (simp add: parseAfterId_def)
    next
      case n3: None
      show ?thesis
      proof (cases "regexMatch flags_i TRAILING_WITH_ACT_NUMBER t")
        case (Some m)
        then show ?thesis using n1 n2 n3 grammar_section[OF Some grammar_groups(6)]
          by (simp add: parseAfterId_def)
      next
        case n4: None
        show ?thesis
        proof (cases "regexMatch flags_i TRAILING_SECTION t")
          case (Some m)
          then show ?thesis using n1 n2 n3 n4 grammar_section[OF Some grammar_groups(7)]
            by (simp add: parseAfterId_def)
        next
          case n5: None
          then show ?thesis using n1 n2 n3 n4
            by (simp add: parseAfterId_def parseOutcome_def invalidCitation_def)
        qed
      qed
    qed
  qed
qed

lemma parseCitation_outcome: "parseOutcome (trim s) (parseCitation s)"
proof (cases "regexMatch flags_i ID_BASED (trim s)")
  case None
  then show ?thesis using parseAfterId_outcome by (simp add: parseCitation_def)
next
  case (Some m)
  from regexMatch_group_nonempty[OF Some] grammar_groups(2)
  obtain idStr where idStr: "m_groups m 1 = Some idStr" by auto
  show ?thesis
  proof (cases "regexMatch flags_i ID_PARTS idStr")
    case None
    then show ?thesis using parseAfterId_outcome Some idStr by (simp add: parseCitation_def)
  next
    case parts: (Some idParts)
    show ?thesis using grammar_section[OF Some grammar_groups(1)] Some idStr parts
      by (simp add: parseCitation_def)
  qed
qed


lemma trim_nonempty: "\<not> isWhiteSpace x \<Longrightarrow> trim (x # xs) \<noteq> []"
proof -
  assume x: "\<not> isWhiteSpace x"
  have "dropWhile isWhiteSpace (rev xs @ [x]) \<noteq> []"
    using x by (simp add: dropWhile_eq_Nil_conv)
  then show ?thesis using x by (simp add: trim_def trimStart_def trimEnd_def)
qed

lemma formatCitation_nonempty:
  assumes "valid p" and "section_c p = Some v" and "v \<noteq> []"
  shows "formatCitation p full \<noteq> [] \<and> formatCitation p short \<noteq> []
         \<and> formatCitation p pinpoint \<noteq> []"
proof -
  have S: "js ''Section '' = 83 # js ''ection ''" and s: "js ''s. '' = 115 # js ''. ''"
    by (simp_all add: js_def)
  have w: "\<not> isWhiteSpace 83" "\<not> isWhiteSpace 115" by (simp_all add: isWhiteSpace_def)
  show ?thesis using assms trim_nonempty[OF w(1)] trim_nonempty[OF w(2)]
    by (simp add: formatCitation_def truthyStr_def Let_def S s)
qed

text \<open>
  Claim C10. For every input string the parser returns a record (it raises no exception);
  when the record is valid its section is a string that is not empty; and for each of the
  styles full, short and pinpoint the formatted citation is the empty string if and only
  if the record is invalid.
\<close>

theorem valid_citation_formats_nonempty:
  "\<exists>p. parseCitation s = Inr p
       \<and> (valid p \<longrightarrow> (\<exists>v. section_c p = Some v \<and> v \<noteq> []))
       \<and> (formatCitation p full = [] \<longleftrightarrow> \<not> valid p)
       \<and> (formatCitation p short = [] \<longleftrightarrow> \<not> valid p)
       \<and> (formatCitation p pinpoint = [] \<longleftrightarrow> \<not> valid p)"
proof -
  from parseCitation_outcome[of s] obtain p where p: "parseCitation s = Inr p"
    and c: "if valid p then (\<exists>v. section_c p = Some v \<and> v \<noteq> [])
            else p = invalidCitation (trim s)"
    unfolding parseOutcome_def by blast
  show ?thesis
  proof (cases "valid p")
    case True
    then obtain v where v: "section_c p = Some v" "v \<noteq> []" using c by auto
    show ?thesis using p True v formatCitation_nonempty[OF True v] by simp
  next
    case False
    then show ?thesis using p by (simp add: formatCitation_def)
  qed
qed

lemma parse_short_example:
  "parseCitation (js ''s. 1(2)(a) DPA 2012'') =
     Inr \<lparr> valid = True, type_c = js ''act'', title_c = Some (js ''DPA''), act_number = None,
           year = Some (Num 2012), section_c = Some (js ''1''), subsection_c = Some (js ''2''),
           paragraph_c = Some (js ''a''), error = None \<rparr>"
  by (simp add: eval_defs)

theorem valid_citation_formats_nonempty_witness:
  "\<exists>p. parseCitation (js ''s. 1(2)(a) DPA 2012'') = Inr p \<and> valid p
       \<and> (\<exists>v. section_c p = Some v \<and> v \<noteq> [])
       \<and> formatCitation p full \<noteq> [] \<and> formatCitation p short \<noteq> []
       \<and> formatCitation p pinpoint \<noteq> []"
  using valid_citation_formats_nonempty[of "js ''s. 1(2)(a) DPA 2012''"] parse_short_example
  by auto

text \<open>
  Claim C1. \<open>parseCitation\<close> is the ordered list of the six grammars (ID-based, full
  with number, full, short, trailing with number, trailing) with the first grammar that
  applies deciding the result. The string \<open>act-843-2012, s. 1\<close> is decided by the
  ID-based grammar, with act number 843, year 2012 and section 1; neither trailing grammar
  applies to it at all.
\<close>

lemma parseCitation_by_priority: "parseCitation s = parseByPriority s"
proof -
  let ?t = "trim s"
  have after: "parseAfterId ?t =
      (case firstMatch [fullWithNumberGrammar, fullGrammar, shortGrammar,
                        trailingWithNumberGrammar, trailingGrammar] ?t of
         Some r \<Rightarrow> r | None \<Rightarrow> Inr (invalidCitation ?t))"
    by (simp add: parseAfterId_def fullWithNumberGrammar_def fullGrammar_def shortGrammar_def
        trailingWithNumberGrammar_def trailingGrammar_def split: option.splits)
  show ?thesis
    using after
    by (simp add: parseCitation_def parseByPriority_def grammarsInPriorityOrder_def
        idBasedGrammar_def Let_def split: option.splits)
qed

lemma id_example:
  "idBasedGrammar (js ''act-843-2012, s. 1'') =
     Some (Inr \<lparr> valid = True, type_c = js ''act'', title_c = None,
                 act_number = Some (Num 843), year = Some (Num 2012),
                 section_c = Some (js ''1''), subsection_c = None, paragraph_c = None,
                 error = None \<rparr>)"
  by (simp add: eval_defs idBasedGrammar_def)

lemma trailing_example:
  "trailingWithNumberGrammar (js ''act-843-2012, s. 1'') = None"
  "trailingGrammar (js ''act-843-2012, s. 1'') = None"
  by (simp_all add: eval_defs trailingWithNumberGrammar_def trailingGrammar_def)

theorem parseCitation_priority_order:
  "(\<forall>s. parseCitation s = parseByPriority s)
   \<and> idBasedGrammar (js ''act-843-2012, s. 1'') =
       Some (Inr \<lparr> valid = True, type_c = js ''act'', title_c = None,
                   act_number = Some (Num 843), year = Some (Num 2012),
                   section_c = Some (js ''1''), subsection_c = None, paragraph_c = None,
                   error = None \<rparr>)
   \<and> parseCitation (js ''act-843-2012, s. 1'') =
       Inr \<lparr> valid = True, type_c = js ''act'', title_c = None,
             act_number = Some (Num 843), year = Some (Num 2012),
             section_c = Some (js ''1''), subsection_c = None, paragraph_c = None,
             error = None \<rparr>
   \<and> trailingWithNumberGrammar (js ''act-843-2012, s. 1'') = None
   \<and> trailingGrammar (js ''act-843-2012, s. 1'') = None"
proof -
  have t: "trim (js ''act-843-2012, s. 1'') = js ''act-843-2012, s. 1''"
    by (simp add: trim_def trimStart_def trimEnd_def js_def isWhiteSpace_def)
  have "parseCitation (js ''act-843-2012, s. 1'') =
       Inr \<lparr> valid = True, type_c = js ''act'', title_c = None,
             act_number = Some (Num 843), year = Some (Num 2012),
             section_c = Some (js ''1''), subsection_c = None, paragraph_c = None,
             error = None \<rparr>"
    unfolding parseCitation_by_priority parseByPriority_def grammarsInPriorityOrder_def t
    by (simp add: id_example)
  then show ?thesis
    using parseCitation_by_priority id_example trailing_example
    by (simp add: grammarsInPriorityOrder_def)
qed

text \<open>
  Claim C8. When the grammar rejects the citation string, \<open>validateCitation\<close> returns
  at once: the document and the provision are reported absent, the only warning is the
  diagnostic of the parser, and no statement has been run against the database.
\<close>

theorem invalid_citation_returns_immediately:
  assumes "parseCitation c = Inr p" and "\<not> valid p"
  shows "validateCitation db c =
           Inr (\<lparr> citation = p, document_exists = False, provision_exists = False,
                   document_title = None, status_v = None,
                   warnings = [js ''Could not parse Ghana citation: \"'' @ trim c @ js ''\"''] \<rparr>,
                [])"
proof -
  from parseCitation_outcome[of c] assms have "p = invalidCitation (trim c)"
    by (auto simp: parseOutcome_def)
  then have "error p = Some (js ''Could not parse Ghana citation: \"'' @ trim c @ js ''\"'')"
    by (simp add: invalidCitation_def)
  then show ?thesis using assms by (simp add: validateCitation_def validateParsed_def)
qed

lemma parse_invalid_example:
  "parseCitation (js '' section one of the DPA '') = Inr (invalidCitation (js ''section one of the DPA''))"
  by (simp add: eval_defs)

theorem invalid_citation_returns_immediately_witness:
  "validateCitation emptyDatabase (js '' section one of the DPA '') =
     Inr (\<lparr> citation = invalidCitation (js ''section one of the DPA''),
             document_exists = False, provision_exists = False,
             document_title = None, status_v = None,
             warnings = [js ''Could not parse Ghana citation: \"section one of the DPA\"''] \<rparr>,
          [])"
proof -
  have h2: "\<not> valid (invalidCitation (js ''section one of the DPA''))"
    by (simp add: invalidCitation_def)
  have t: "trim (js '' section one of the DPA '') = js ''section one of the DPA''"
    by (simp add: trim_def trimStart_def trimEnd_def js_def isWhiteSpace_def)
  show ?thesis
    using invalid_citation_returns_immediately[OF parse_invalid_example h2, of emptyDatabase]
    unfolding t by (simp add: js_def)
qed







section \<open>Properties of the extractor\<close>

lemmas pat_defs = seqs_def lit_def chr_def plus_def star_def opt_def lazyPlus_def times_def
  digit_def space_def instrumentWord_def communityWord_def optionalNo_def

lemma euPatterns_shape:
  "nonnull euPattern0 \<and> groupsNonnull 1 euPattern0 \<and> setsGroup 1 euPattern0"
  "nonnull euPattern1 \<and> groupsNonnull 1 euPattern1 \<and> setsGroup 1 euPattern1"
  "nonnull euPattern2 \<and> groupsNonnull 1 euPattern2 \<and> setsGroup 1 euPattern2"
  by (simp_all add: pat_defs euPattern0_def euPattern1_def euPattern2_def)

lemma conventionPatterns_nonnull: "\<forall>cp \<in> set conventionPatterns. nonnull (cp_pattern cp)"
  by (simp add: conventionPatterns_def pat_defs)

lemmas extract_defs = pat_defs flags_i_def canon_def isDigit_def isWhiteSpace_def
  isLineTerminator_def swapCase_def isWordChar_def atWordBoundary_def noCaps_def consumed_def
  regexMatch_def regexTest_def js_def mkMatch_def rmatch.simps
  execLoop.simps execAll_def euPattern0_def euPattern1_def euPattern2_def conventionPatterns_def
  euBody_def conventionBody_def andThen_def extractEuReferences_def contextOf_def slice_def
  trim_def trimStart_def trimEnd_def normalizeEuYear_def parseInt_def parseIntU_def
  buildEuDocumentId_def showNum_def showNat.simps strOrEmpty_def strU_def truthyStr_def
  normalizeCommunity_def toUpperCase_def toLowerCase_def extractArticleReference_def
  inferReferenceType_def ARTICLE_PATTERN_def IMPLEMENTS_PATTERN_def Let_def
  euCandidate_def conventionCandidate_def collectEu_def collectConvention_def
  matchedReferences_def

lemma euPatterns_type_chars:
  "\<not> mayCapture flags_i 1 euPattern0 58"
  "\<not> mayCapture flags_i 1 euPattern1 58"
  "\<not> mayCapture flags_i 1 euPattern2 58"
  by (simp_all add: pat_defs euPattern0_def euPattern1_def euPattern2_def flags_i_def canon_def)

lemma article_chars: "\<not> mayCapture flags_i 1 ARTICLE_PATTERN 58"
  by (simp add: pat_defs ARTICLE_PATTERN_def flags_i_def canon_def swapCase_def isDigit_def)

lemma conventionPatterns_ids: "\<forall>cp \<in> set conventionPatterns. colons (cp_id cp) = 1"
  by (simp add: conventionPatterns_def colons_def js_def)

lemma colons_append: "colons (a @ b) = colons a + colons b"
  by (simp add: colons_def)

lemma colons_zero: "colons s = 0 \<longleftrightarrow> 58 \<notin> set s"
  by (auto simp: colons_def filter_empty_conv)

lemma showNat_colons: "colons (showNat n) = 0"
proof (induction n rule: showNat.induct)
  case (1 n)
  show ?case
  proof (cases "n < 10")
    case True
    then show ?thesis by (subst showNat.simps) (simp add: colons_def)
  next
    case False
    then show ?thesis using 1 by (subst showNat.simps) (simp add: colons_append, simp add: colons_def)
  qed
qed

lemma showNum_colons: "colons (showNum x) = 0"
proof (cases x)
  case (Num n)
  have "colons (45 # showNat (nat (- n))) = 0" using showNat_colons[of "nat (- n)"]
    by (simp add: colons_def)
  then show ?thesis using Num showNat_colons by (simp add: showNum_def)
next
  case NaN
  then show ?thesis by (simp add: showNum_def colons_def js_def)
qed

lemma toLowerCase_colons: "colons s = 0 \<Longrightarrow> colons (toLowerCase s) = 0"
  unfolding colons_zero by (auto simp: toLowerCase_def)

lemma extractArticleReference_colons:
  "colons (strOrEmpty (extractArticleReference ctx)) = 0"
proof (cases "regexMatch flags_i ARTICLE_PATTERN ctx")
  case None
  then show ?thesis by (simp add: extractArticleReference_def strOrEmpty_def colons_def)
next
  case (Some m)
  then have im: "isMatchOf flags_i ARTICLE_PATTERN m"
    unfolding regexMatch_def using searchFrom_match by blast
  show ?thesis
  proof (cases "m_groups m 1")
    case None
    then show ?thesis using Some by (simp add: extractArticleReference_def strOrEmpty_def colons_def)
  next
    case (Some v)
    from isMatchOf_group_chars[OF im _ Some] have "\<forall>x \<in> set v. mayCapture flags_i 1 ARTICLE_PATTERN x"
      by simp
    then have "58 \<notin> set v" using article_chars by blast
    then show ?thesis using Some \<open>regexMatch flags_i ARTICLE_PATTERN ctx = Some m\<close>
      by (simp add: extractArticleReference_def strOrEmpty_def colons_zero)
  qed
qed

lemma js_colon: "js '':'' = [58]"
  by (simp add: js_def)

lemma split_first:
  "x \<notin> set u \<Longrightarrow> x \<notin> set v \<Longrightarrow> u @ x # s = v @ x # t \<Longrightarrow> u = v \<and> s = t"
proof (induction u arbitrary: v)
  case Nil
  then show ?case by (cases v) auto
next
  case (Cons y u)
  then show ?case by (cases v) auto
qed

lemma split_last:
  assumes "x \<notin> set a" and "x \<notin> set b" and "e @ x # a = e' @ x # b"
  shows "e = e' \<and> a = b"
proof -
  have "rev (e @ x # a) = rev (e' @ x # b)" using assms(3) by (rule arg_cong)
  then have eq: "rev a @ x # rev e = rev b @ x # rev e'" by simp
  have na: "x \<notin> set (rev a)" and nb: "x \<notin> set (rev b)" using assms(1,2) by simp_all
  from split_first[OF na nb eq] show ?thesis by simp
qed

lemma key_pair:
  assumes "wfRef r" and "wfRef q"
  shows "dedupeKeyOf r = dedupeKeyOf q \<longleftrightarrow> pairOf r = pairOf q"
proof
  assume k: "dedupeKeyOf r = dedupeKeyOf q"
  have a: "58 \<notin> set (strOrEmpty (euArticle r))" "58 \<notin> set (strOrEmpty (euArticle q))"
    using assms by (simp_all add: wfRef_def colons_zero)
  have "euDocumentId r @ 58 # strOrEmpty (euArticle r)
             = euDocumentId q @ 58 # strOrEmpty (euArticle q)"
    using k unfolding dedupeKeyOf_def js_colon by simp
  from split_last[OF a this] show "pairOf r = pairOf q" by (simp add: pairOf_def)
next
  assume "pairOf r = pairOf q"
  then show "dedupeKeyOf r = dedupeKeyOf q" by (simp add: pairOf_def dedupeKeyOf_def)
qed

lemma firstPerPair_snoc:
  "firstPerPair (cs @ [c]) =
     (if pairOf c \<in> pairOf ` set cs then firstPerPair cs else firstPerPair cs @ [c])"
proof (induction cs rule: firstPerPair.induct)
  case 1
  show ?case by simp
next
  case (2 r rs)
  define rs' where "rs' = filter (\<lambda>q. pairOf q \<noteq> pairOf r) rs"
  have ih: "firstPerPair (rs' @ [c]) =
     (if pairOf c \<in> pairOf ` set rs' then firstPerPair rs' else firstPerPair rs' @ [c])"
    using 2 unfolding rs'_def .
  have u: "firstPerPair (r # rs) = r # firstPerPair rs'" by (simp add: rs'_def)
  show ?case
  proof (cases "pairOf c = pairOf r")
    case True
    have "firstPerPair ((r # rs) @ [c]) = r # firstPerPair rs'"
      using True by (simp add: rs'_def)
    then show ?thesis using True u by simp
  next
    case False
    have f: "firstPerPair ((r # rs) @ [c]) = r # firstPerPair (rs' @ [c])"
      using False by (simp add: rs'_def)
    have m: "pairOf c \<in> pairOf ` set rs' \<longleftrightarrow> pairOf c \<in> pairOf ` set rs"
      using False unfolding rs'_def by auto
    have s: "pairOf c \<in> pairOf ` set (r # rs) \<longleftrightarrow> pairOf c \<in> pairOf ` set rs"
      using False by auto
    show ?thesis unfolding f ih u s m by simp
  qed
qed

lemma firstPerPair_pairs: "pairOf ` set (firstPerPair cs) = pairOf ` set cs"
proof (induction cs rule: rev_induct)
  case Nil
  show ?case by simp
next
  case (snoc c cs)
  show ?case
  proof (cases "pairOf c \<in> pairOf ` set cs")
    case True
    then show ?thesis using snoc by (simp add: firstPerPair_snoc insert_absorb)
  next
    case False
    then show ?thesis using snoc by (simp add: firstPerPair_snoc)
  qed
qed

lemma firstPerPair_distinct: "distinct (map pairOf (firstPerPair cs))"
proof (induction cs rule: rev_induct)
  case Nil
  show ?case by simp
next
  case (snoc c cs)
  show ?case
  proof (cases "pairOf c \<in> pairOf ` set cs")
    case True
    then show ?thesis using snoc by (simp add: firstPerPair_snoc)
  next
    case False
    then have "pairOf c \<notin> pairOf ` set (firstPerPair cs)" by (simp add: firstPerPair_pairs)
    then show ?thesis using snoc False by (simp add: firstPerPair_snoc)
  qed
qed

lemma firstPerPair_first:
  "r \<in> set (firstPerPair cs) \<Longrightarrow>
     \<exists>pre post. cs = pre @ r # post \<and> pairOf r \<notin> pairOf ` set pre"
proof (induction cs rule: rev_induct)
  case Nil
  then show ?case by simp
next
  case (snoc c cs)
  show ?case
  proof (cases "r \<in> set (firstPerPair cs)")
    case True
    from snoc.IH[OF True] obtain pre post where "cs = pre @ r # post" "pairOf r \<notin> pairOf ` set pre"
      by blast
    then have "cs @ [c] = pre @ r # (post @ [c])" by simp
    then show ?thesis using \<open>pairOf r \<notin> pairOf ` set pre\<close> by blast
  next
    case False
    then have rc: "r = c" and n: "pairOf c \<notin> pairOf ` set cs"
      using snoc.prems by (auto simp: firstPerPair_snoc split: if_splits)
    have "cs @ [c] = cs @ r # []" using rc by simp
    then show ?thesis using n rc by blast
  qed
qed


lemma execLoop_invariant:
  assumes nn: "nonnull r"
    and body: "\<And>m st. isMatchOf f r m \<Longrightarrow> I st \<Longrightarrow> \<exists>st'. loopBody m st = Returns st' \<and> I st'"
  shows "I st \<Longrightarrow> \<exists>st'. execLoop f r loopBody pv rest i st = Returns st' \<and> I st'"
proof (induction "length rest" arbitrary: pv rest i st rule: less_induct)
  case less
  show ?case
  proof (cases "searchFrom f r pv rest i")
    case None
    then show ?thesis using less.prems by (subst execLoop.simps) simp
  next
    case (Some m)
    from searchFrom_match[OF Some] nn have im: "isMatchOf f r m"
      and lt: "length (snd (m_end m)) < length rest" by auto
    from body[OF im less.prems] obtain st1 where st1: "loopBody m st = Returns st1"
      and i1: "I st1" by blast
    from less.hyps[OF lt i1]
    obtain st' where "execLoop f r loopBody (fst (m_end m)) (snd (m_end m))
        (i + (length rest - length (snd (m_end m)))) st1 = Returns st'" "I st'"
      by blast
    then show ?thesis using Some st1 lt by (subst execLoop.simps) simp
  qed
qed

lemma execLoop_related:
  assumes nn: "nonnull r"
    and body: "\<And>m s t. isMatchOf f r m \<Longrightarrow> R s t \<Longrightarrow>
                 \<exists>s' t'. body1 m s = Returns s' \<and> body2 m t = Returns t' \<and> R s' t'"
  shows "R s t \<Longrightarrow> \<exists>s' t'. execLoop f r body1 pv rest i s = Returns s'
                         \<and> execLoop f r body2 pv rest i t = Returns t' \<and> R s' t'"
proof (induction "length rest" arbitrary: pv rest i s t rule: less_induct)
  case less
  show ?case
  proof (cases "searchFrom f r pv rest i")
    case None
    then show ?thesis using less.prems
      by (subst execLoop.simps, subst (2) execLoop.simps) simp
  next
    case (Some m)
    from searchFrom_match[OF Some] nn have im: "isMatchOf f r m"
      and lt: "length (snd (m_end m)) < length rest" by auto
    from body[OF im less.prems] obtain s1 t1 where s1: "body1 m s = Returns s1"
      and t1: "body2 m t = Returns t1" and r1: "R s1 t1" by blast
    from less.hyps[OF lt r1]
    obtain s' t' where
      a: "execLoop f r body1 (fst (m_end m)) (snd (m_end m))
            (i + (length rest - length (snd (m_end m)))) s1 = Returns s'"
      and b: "execLoop f r body2 (fst (m_end m)) (snd (m_end m))
            (i + (length rest - length (snd (m_end m)))) t1 = Returns t'"
      and c: "R s' t'" by blast
    have "execLoop f r body1 pv rest i s = Returns s'"
      using Some s1 lt a by (subst execLoop.simps) simp
    moreover have "execLoop f r body2 pv rest i t = Returns t'"
      using Some t1 lt b by (subst execLoop.simps) simp
    ultimately show ?thesis using c by blast
  qed
qed

lemma push_related:
  assumes rel: "extractionRel st found" and wf: "wfRef c"
  shows "extractionRel
           (if dedupeKeyOf c \<in> snd st then st else (fst st @ [c], insert (dedupeKeyOf c) (snd st)))
           (found @ [c])"
proof -
  have f: "fst st = firstPerPair found" and s: "snd st = dedupeKeyOf ` set found"
    and w: "\<forall>q \<in> set found. wfRef q" using rel by (simp_all add: extractionRel_def)
  have m: "dedupeKeyOf c \<in> snd st \<longleftrightarrow> pairOf c \<in> pairOf ` set found"
  proof
    assume "dedupeKeyOf c \<in> snd st"
    then obtain q where q: "q \<in> set found" "dedupeKeyOf c = dedupeKeyOf q" using s by auto
    then have "pairOf c = pairOf q" using key_pair[OF wf] w by blast
    then show "pairOf c \<in> pairOf ` set found" using q(1) by blast
  next
    assume "pairOf c \<in> pairOf ` set found"
    then obtain q where q: "q \<in> set found" "pairOf c = pairOf q" by auto
    then have "dedupeKeyOf c = dedupeKeyOf q" using key_pair[OF wf] w by blast
    then show "dedupeKeyOf c \<in> snd st" using q(1) s by blast
  qed
  have w': "\<forall>q \<in> set (found @ [c]). wfRef q" using w wf by simp
  show ?thesis
  proof (cases "dedupeKeyOf c \<in> snd st")
    case True
    then have "firstPerPair (found @ [c]) = fst st" using m f by (simp add: firstPerPair_snoc)
    moreover have "dedupeKeyOf ` set (found @ [c]) = snd st" using True s by auto
    ultimately show ?thesis using True w' by (simp add: extractionRel_def)
  next
    case False
    then have "firstPerPair (found @ [c]) = fst st @ [c]" using m f by (simp add: firstPerPair_snoc)
    moreover have "dedupeKeyOf ` set (found @ [c]) = insert (dedupeKeyOf c) (snd st)"
      using s by auto
    ultimately show ?thesis using False w' by (simp add: extractionRel_def)
  qed
qed

lemma euBody_candidate:
  "euBody i text m st =
     andThen (euCandidate i text m) (\<lambda>cand. case cand of
        None \<Rightarrow> Returns st
      | Some c \<Rightarrow> Returns (if dedupeKeyOf c \<in> snd st then st
                           else (fst st @ [c], insert (dedupeKeyOf c) (snd st))))"
  by (cases "m_groups m 1")
     (simp_all add: euBody_def euCandidate_def andThen_def Let_def dedupeKeyOf_def)

lemma conventionBody_candidate:
  "conventionBody cp text m st =
     Returns (if dedupeKeyOf (conventionCandidate cp text m) \<in> snd st then st
              else (fst st @ [conventionCandidate cp text m],
                    insert (dedupeKeyOf (conventionCandidate cp text m)) (snd st)))"
  by (simp add: conventionBody_def conventionCandidate_def Let_def dedupeKeyOf_def strOrEmpty_def)

lemma buildEuDocumentId_colons:
  "colons ty = 0 \<Longrightarrow> colons (buildEuDocumentId ty yr n) = 1"
proof -
  assume t: "colons ty = 0"
  have c1: "colons (js '':'') = 1" and c2: "colons (js ''/'') = 0"
    by (simp_all add: colons_def js_def)
  show ?thesis
    unfolding buildEuDocumentId_def colons_append c1 c2 t showNum_colons by simp
qed

lemma euCandidate_wf:
  assumes im: "isMatchOf flags_i r m" and nc: "\<not> mayCapture flags_i 1 r 58"
    and g: "groupsNonnull 1 r \<and> setsGroup 1 r"
  shows "\<exists>cand. euCandidate i text m = Returns cand \<and> (\<forall>c. cand = Some c \<longrightarrow> wfRef c)"
proof -
  from isMatchOf_group[OF im, of 1] g obtain w where w: "m_groups m 1 = Some w" by auto
  from isMatchOf_group_chars[OF im _ w] nc have "58 \<notin> set w" by auto
  then have "colons (toLowerCase w) = 0" using toLowerCase_colons colons_zero by blast
  then have id: "\<And>yr n. colons (buildEuDocumentId (toLowerCase w) yr n) = 1"
    by (rule buildEuDocumentId_colons)
  show ?thesis
    unfolding euCandidate_def w
    by (simp add: Let_def wfRef_def id extractArticleReference_colons)
qed

lemma euStep_related:
  assumes im: "isMatchOf flags_i r m" and nc: "\<not> mayCapture flags_i 1 r 58"
    and g: "groupsNonnull 1 r \<and> setsGroup 1 r" and rel: "extractionRel st found"
  shows "\<exists>st' found'. euBody i text m st = Returns st'
            \<and> collectEu i text m found = Returns found' \<and> extractionRel st' found'"
proof -
  from euCandidate_wf[OF im nc g, of i "text"] obtain cand where
    c: "euCandidate i text m = Returns cand" and wf: "\<forall>c. cand = Some c \<longrightarrow> wfRef c" by blast
  show ?thesis
  proof (cases cand)
    case None
    then show ?thesis using c rel by (simp add: euBody_candidate collectEu_def andThen_def)
  next
    case (Some x)
    then have "wfRef x" using wf by simp
    from push_related[OF rel this] show ?thesis
      using c Some by (simp add: euBody_candidate collectEu_def andThen_def)
  qed
qed

lemma conventionStep_related:
  assumes id: "colons (cp_id cp) = 1" and rel: "extractionRel st found"
  shows "\<exists>st' found'. conventionBody cp text m st = Returns st'
            \<and> collectConvention cp text m found = Returns found' \<and> extractionRel st' found'"
proof -
  have "wfRef (conventionCandidate cp text m)"
    using id by (simp add: wfRef_def conventionCandidate_def strOrEmpty_def colons_def)
  from push_related[OF rel this] show ?thesis
    by (simp add: conventionBody_candidate collectConvention_def)
qed

lemma conventionLoops_related:
  "\<forall>cp \<in> set cps. nonnull (cp_pattern cp) \<and> colons (cp_id cp) = 1 \<Longrightarrow> extractionRel st found \<Longrightarrow>
     \<exists>st' found'. conventionLoops cps text st = Returns st'
        \<and> collectConventions cps text found = Returns found' \<and> extractionRel st' found'"
proof (induction cps arbitrary: st found)
  case Nil
  then show ?case by simp
next
  case (Cons cp cps)
  have nn: "nonnull (cp_pattern cp)" and id: "colons (cp_id cp) = 1" using Cons.prems(1) by simp_all
  have "\<exists>s' t'. execLoop flags_i (cp_pattern cp) (conventionBody cp text) None text 0 st = Returns s'
          \<and> execLoop flags_i (cp_pattern cp) (collectConvention cp text) None text 0 found = Returns t'
          \<and> extractionRel s' t'"
  proof (rule execLoop_related[where R = extractionRel, OF nn _ Cons.prems(2)])
    fix m s t assume "extractionRel s t"
    then show "\<exists>s' t'. conventionBody cp text m s = Returns s'
        \<and> collectConvention cp text m t = Returns t' \<and> extractionRel s' t'"
      by (rule conventionStep_related[OF id])
  qed
  then obtain s1 t1 where
    a: "execAll flags_i (cp_pattern cp) (conventionBody cp text) text st = Returns s1"
    and b: "execAll flags_i (cp_pattern cp) (collectConvention cp text) text found = Returns t1"
    and r1: "extractionRel s1 t1" unfolding execAll_def by blast
  from Cons.IH[OF _ r1] Cons.prems(1)
  obtain st' found' where "conventionLoops cps text s1 = Returns st'"
    "collectConventions cps text t1 = Returns found'" "extractionRel st' found'" by auto
  then show ?case using a b by (simp add: andThen_def)
qed

lemma euLoop_related:
  assumes nn: "nonnull r" and nc: "\<not> mayCapture flags_i 1 r 58"
    and g: "groupsNonnull 1 r \<and> setsGroup 1 r" and rel: "extractionRel st found"
  shows "\<exists>st' found'. execAll flags_i r (euBody i text) text st = Returns st'
            \<and> execAll flags_i r (collectEu i text) text found = Returns found'
            \<and> extractionRel st' found'"
  unfolding execAll_def
proof (rule execLoop_related[where R = extractionRel, OF nn _ rel])
  fix m s t assume "isMatchOf flags_i r m" "extractionRel s t"
  then show "\<exists>s' t'. euBody i text m s = Returns s' \<and> collectEu i text m t = Returns t'
      \<and> extractionRel s' t'"
    using euStep_related[OF _ nc g] by blast
qed

lemma extractEuReferences_firstPerPair:
  "\<exists>refs found. extractEuReferences text = Returns refs \<and> matchedReferences text = Returns found
       \<and> refs = firstPerPair found \<and> (\<forall>c \<in> set found. wfRef c)"
proof (cases "text = [] \<or> length (trim text) = 0")
  case True
  then show ?thesis by (auto simp: extractEuReferences_def matchedReferences_def)
next
  case False
  have r0: "extractionRel ([], {}) []" by (simp add: extractionRel_def)
  from euLoop_related[OF _ euPatterns_type_chars(1) _ r0, of 0 "text"] euPatterns_shape(1)
  obtain s0 f0 where a0: "execAll flags_i euPattern0 (euBody 0 text) text ([], {}) = Returns s0"
    and b0: "execAll flags_i euPattern0 (collectEu 0 text) text [] = Returns f0"
    and r1: "extractionRel s0 f0" by blast
  from euLoop_related[OF _ euPatterns_type_chars(2) _ r1, of 1 "text"] euPatterns_shape(2)
  obtain s1 f1 where a1: "execAll flags_i euPattern1 (euBody 1 text) text s0 = Returns s1"
    and b1: "execAll flags_i euPattern1 (collectEu 1 text) text f0 = Returns f1"
    and r2: "extractionRel s1 f1" by blast
  from euLoop_related[OF _ euPatterns_type_chars(3) _ r2, of 2 "text"] euPatterns_shape(3)
  obtain s2 f2 where a2: "execAll flags_i euPattern2 (euBody 2 text) text s1 = Returns s2"
    and b2: "execAll flags_i euPattern2 (collectEu 2 text) text f1 = Returns f2"
    and r3: "extractionRel s2 f2" by blast
  from conventionLoops_related[OF _ r3, of conventionPatterns "text"]
    conventionPatterns_nonnull conventionPatterns_ids
  obtain s3 f3 where a3: "conventionLoops conventionPatterns text s2 = Returns s3"
    and b3: "collectConventions conventionPatterns text f2 = Returns f3"
    and r4: "extractionRel s3 f3" by blast
  have "extractEuReferences text = Returns (fst s3)"
    using False a0 a1 a2 a3 by (simp add: extractEuReferences_def andThen_def)
  moreover have "matchedReferences text = Returns f3"
    using False b0 b1 b2 b3 by (simp add: matchedReferences_def andThen_def)
  ultimately show ?thesis using r4 by (simp add: extractionRel_def)
qed

text \<open>
  The long text: the first and the second mention of the regulation are kept, one for
  Article 5 and one for Article 6; the third, whose context differs from the second's but
  whose first article is again Article 6, is matched and dropped.
\<close>

lemma longText_references:
  "extractEuReferences longText =
   Returns
    [longTextRef ''5'' ''Article 5 of Regulation (EU) No 2016/679 sets out the principles. The Commission, the courts and the Minister are bound by what follows, and no rule of this Act'',
     longTextRef ''6'' ''s and the Minister are bound by what follows, and no rule of this Act may be read so as to depart from it. Article 6 of Regulation (EU) No 2016/679 gives the grounds, and Regulation (EU) No 2016/679 applies.'']"
  by (simp add: longText_def longTextRef_def extract_defs)

lemma longText_matches:
  "matchedReferences longText =
   Returns
    [longTextRef ''5'' ''Article 5 of Regulation (EU) No 2016/679 sets out the principles. The Commission, the courts and the Minister are bound by what follows, and no rule of this Act'',
     longTextRef ''6'' ''s and the Minister are bound by what follows, and no rule of this Act may be read so as to depart from it. Article 6 of Regulation (EU) No 2016/679 gives the grounds, and Regulation (EU) No 2016/679 applies.'',
     longTextRef ''6'' ''o rule of this Act may be read so as to depart from it. Article 6 of Regulation (EU) No 2016/679 gives the grounds, and Regulation (EU) No 2016/679 applies.'']"
  by (simp add: longText_def longTextRef_def extract_defs)

text \<open>
  Claim C5. For every text a call of \<open>extractEuReferences\<close> returns (it neither raises
  nor runs for ever), and what it returns is, of the references of all the matches in the
  order in which the loops find them, the first of each pair of instrument and
  article-or-empty: no two references returned have the same pair, every pair that is
  matched has its reference, and that reference is the one of the first match of the pair,
  as that match gave it; the later matches of the pair are dropped. In the long text, which
  names \<open>Regulation (EU) No 2016/679\<close> three times, under Article 5, under Article 6 and
  under Article 6 again, the matches give three references and the call returns the first
  two.
\<close>

theorem extract_one_reference_per_pair:
  "(\<exists>refs found.
       extractEuReferences text = Returns refs \<and> matchedReferences text = Returns found
     \<and> refs = firstPerPair found
     \<and> distinct (map pairOf refs)
     \<and> pairOf ` set refs = pairOf ` set found
     \<and> (\<forall>r \<in> set refs. \<exists>pre post. found = pre @ r # post \<and> pairOf r \<notin> pairOf ` set pre))
   \<and> (\<exists>a5 a6 b6.
         matchedReferences longText = Returns [a5, a6, b6]
       \<and> extractEuReferences longText = Returns [a5, a6]
       \<and> pairOf a5 = (js ''regulation:2016/679'', js ''5'')
       \<and> pairOf a6 = (js ''regulation:2016/679'', js ''6'')
       \<and> pairOf b6 = (js ''regulation:2016/679'', js ''6'')
       \<and> referenceContext a6 \<noteq> referenceContext b6)"
proof
  from extractEuReferences_firstPerPair[of "text"] obtain refs found where
    a: "extractEuReferences text = Returns refs" and b: "matchedReferences text = Returns found"
    and c: "refs = firstPerPair found" by blast
  have "distinct (map pairOf refs)" unfolding c by (rule firstPerPair_distinct)
  moreover have "pairOf ` set refs = pairOf ` set found" unfolding c by (rule firstPerPair_pairs)
  moreover have "\<forall>r \<in> set refs. \<exists>pre post. found = pre @ r # post \<and> pairOf r \<notin> pairOf ` set pre"
    unfolding c using firstPerPair_first by blast
  ultimately show "\<exists>refs found.
       extractEuReferences text = Returns refs \<and> matchedReferences text = Returns found
     \<and> refs = firstPerPair found
     \<and> distinct (map pairOf refs)
     \<and> pairOf ` set refs = pairOf ` set found
     \<and> (\<forall>r \<in> set refs. \<exists>pre post. found = pre @ r # post \<and> pairOf r \<notin> pairOf ` set pre)"
    using a b c by blast
next
  show "\<exists>a5 a6 b6.
         matchedReferences longText = Returns [a5, a6, b6]
       \<and> extractEuReferences longText = Returns [a5, a6]
       \<and> pairOf a5 = (js ''regulation:2016/679'', js ''5'')
       \<and> pairOf a6 = (js ''regulation:2016/679'', js ''6'')
       \<and> pairOf b6 = (js ''regulation:2016/679'', js ''6'')
       \<and> referenceContext a6 \<noteq> referenceContext b6"
    unfolding longText_references longText_matches
    by (simp add: pairOf_def longTextRef_def strOrEmpty_def js_def)
qed

theorem extract_one_reference_per_pair_witness:
  "\<exists>a5 a6 b6. extractEuReferences longText = Returns [a5, a6]
      \<and> matchedReferences longText = Returns [a5, a6, b6]
      \<and> [a5, a6] = firstPerPair [a5, a6, b6]
      \<and> (\<exists>pre post. [a5, a6, b6] = pre @ a6 # post \<and> pairOf a6 \<notin> pairOf ` set pre)"
proof -
  from extract_one_reference_per_pair[of longText] obtain refs found where
    a: "extractEuReferences longText = Returns refs"
    and b: "matchedReferences longText = Returns found"
    and c: "refs = firstPerPair found"
    and d: "\<forall>r \<in> set refs. \<exists>pre post. found = pre @ r # post \<and> pairOf r \<notin> pairOf ` set pre"
    by blast
  from a obtain a5 a6 where refs: "refs = [a5, a6]" unfolding longText_references by auto
  from b obtain b6 where found: "found = [a5, a6, b6]"
    using a refs unfolding longText_references longText_matches by auto
  have "\<exists>pre post. [a5, a6, b6] = pre @ a6 # post \<and> pairOf a6 \<notin> pairOf ` set pre"
    using d unfolding refs found by simp
  then show ?thesis using a b c unfolding refs found by blast
qed

section \<open>Properties of the primary-implementation flag\<close>

lemma andThen_Returns:
  "andThen x k = Returns v \<longleftrightarrow> (\<exists>u. x = Returns u \<and> k u = Returns v)"
  by (cases x) (simp_all add: andThen_def)

lemma primaryKeyOf_inj: "primaryKeyOf d e1 = primaryKeyOf d e2 \<longleftrightarrow> e1 = e2"
  by (simp add: primaryKeyOf_def)

lemma colons_one_split:
  "colons e = 1 \<Longrightarrow> \<exists>t u. e = t @ 58 # u \<and> 58 \<notin> set t \<and> 58 \<notin> set u"
proof (induction e)
  case Nil
  then show ?case by (simp add: colons_def)
next
  case (Cons x e)
  show ?case
  proof (cases "x = 58")
    case True
    then have "colons e = 0" using Cons.prems by (simp add: colons_def)
    then have "58 \<notin> set e" by (simp add: colons_zero)
    then have "x # e = [] @ 58 # e \<and> 58 \<notin> set [] \<and> 58 \<notin> set e" using True by simp
    then show ?thesis by blast
  next
    case False
    then have "colons e = 1" using Cons.prems by (simp add: colons_def)
    from Cons.IH[OF this] obtain t u where "e = t @ 58 # u" "58 \<notin> set t" "58 \<notin> set u" by blast
    then have "x # e = (x # t) @ 58 # u \<and> 58 \<notin> set (x # t) \<and> 58 \<notin> set u" using False by simp
    then show ?thesis by blast
  qed
qed

lemma primaryKeyOf_inj2:
  assumes "colons e = 1" and "colons e' = 1" and "primaryKeyOf d e = primaryKeyOf d' e'"
  shows "d = d' \<and> e = e'"
proof -
  from colons_one_split[OF assms(1)] obtain t u where e: "e = t @ 58 # u"
    and t: "58 \<notin> set t" and u: "58 \<notin> set u" by blast
  from colons_one_split[OF assms(2)] obtain t' u' where e': "e' = t' @ 58 # u'"
    and t': "58 \<notin> set t'" and u': "58 \<notin> set u'" by blast
  have "(d @ 58 # t) @ 58 # u = (d' @ 58 # t') @ 58 # u'"
    using assms(3) unfolding primaryKeyOf_def js_colon e e' by simp
  from split_last[OF u u' this] have a: "d @ 58 # t = d' @ 58 # t'" and b: "u = u'" by simp_all
  from split_last[OF t t' a] show ?thesis using b e e' by simp
qed

lemma keysAfter_append: "keysAfter d (keysAfter d S r1) r2 = keysAfter d S (r1 @ r2)"
  by (auto simp: keysAfter_def)

lemma keysAfter_Nil: "keysAfter d S [] = S"
  by (simp add: keysAfter_def)

lemma notin_keysAfter:
  "primaryKeyOf d e \<notin> keysAfter d S rows \<longleftrightarrow>
     primaryKeyOf d e \<notin> S
     \<and> (\<forall>q \<in> set rows. eu_document_id q = e \<longrightarrow> reference_type q \<noteq> js ''implements'')"
  by (auto simp: keysAfter_def primaryKeyOf_inj)

lemma primaryRule_append:
  assumes h1: "primaryRule d S r1"
    and h2: "primaryRule d (keysAfter d S r1) r2"
  shows "primaryRule d S (r1 @ r2)"
  unfolding primaryRule_def
proof (intro allI impI)
  fix pre r post
  assume split: "r1 @ r2 = pre @ r # post"
  from split consider u where "r1 = pre @ r # u" | u where "pre = r1 @ u" "r2 = u @ r # post"
    by (auto simp: append_eq_append_conv2 append_eq_Cons_conv Cons_eq_append_conv)
  then show "is_primary_implementation r \<longleftrightarrow>
           reference_type r = js ''implements''
           \<and> primaryKeyOf d (eu_document_id r) \<notin> S
           \<and> (\<forall>q \<in> set pre. eu_document_id q = eu_document_id r
                 \<longrightarrow> reference_type q \<noteq> js ''implements'')"
  proof cases
    case 1
    then show ?thesis using h1 unfolding primaryRule_def by blast
  next
    case 2
    have "is_primary_implementation r \<longleftrightarrow>
           reference_type r = js ''implements''
           \<and> primaryKeyOf d (eu_document_id r) \<notin> keysAfter d S r1
           \<and> (\<forall>q \<in> set u. eu_document_id q = eu_document_id r
                 \<longrightarrow> reference_type q \<noteq> js ''implements'')"
      using h2 2(2) unfolding primaryRule_def by blast
    then show ?thesis unfolding notin_keysAfter 2(1) by auto
  qed
qed

lemma insertReferences_ok:
  "primaryRule d S (fst (insertReferences d src refs S))
   \<and> snd (insertReferences d src refs S) = keysAfter d S (fst (insertReferences d src refs S))
   \<and> (\<forall>r \<in> set (fst (insertReferences d src refs S)).
         document_id r = d \<and> eu_document_id r \<in> euDocumentId ` set refs)"
proof (induction refs arbitrary: S)
  case Nil
  show ?case by (simp add: primaryRule_def keysAfter_Nil)
next
  case (Cons ref refs)
  define isPrimary where
    "isPrimary = (referenceType ref = js ''implements'' \<and> primaryKeyOf d (euDocumentId ref) \<notin> S)"
  define S1 where "S1 = (if isPrimary then insert (primaryKeyOf d (euDocumentId ref)) S else S)"
  define row where "row = \<lparr> source_id = src, document_id = d,
                  eu_document_id = euDocumentId ref, eu_article = euArticle ref,
                  reference_type = referenceType ref,
                  reference_context = referenceContext ref,
                  full_citation = fullCitation ref,
                  is_primary_implementation = isPrimary,
                  implementation_status = (if isPrimary then js ''complete'' else js ''unknown'') \<rparr>"
  have unfold: "insertReferences d src (ref # refs) S =
      (row # fst (insertReferences d src refs S1), snd (insertReferences d src refs S1))"
    by (simp add: Let_def isPrimary_def S1_def row_def)
  have one: "primaryRule d S [row]"
    by (auto simp: primaryRule_def row_def isPrimary_def Cons_eq_append_conv)
  have k1: "keysAfter d S [row] = S1"
    by (auto simp: keysAfter_def S1_def row_def isPrimary_def)
  from Cons.IH[of S1] have ih1: "primaryRule d S1 (fst (insertReferences d src refs S1))"
    and ih2: "snd (insertReferences d src refs S1) = keysAfter d S1 (fst (insertReferences d src refs S1))"
    and ih3: "\<forall>r \<in> set (fst (insertReferences d src refs S1)).
                 document_id r = d \<and> eu_document_id r \<in> euDocumentId ` set refs" by auto
  have a: "primaryRule d S ([row] @ fst (insertReferences d src refs S1))"
    using primaryRule_append[OF one] ih1 k1 by simp
  have b: "keysAfter d S1 (fst (insertReferences d src refs S1))
           = keysAfter d S ([row] @ fst (insertReferences d src refs S1))"
    using keysAfter_append[of d S "[row]"] k1 by simp
  have c: "document_id row = d \<and> eu_document_id row = euDocumentId ref" by (simp add: row_def)
  show ?case unfolding unfold using a b c ih2 ih3 by simp
qed

lemma extractEuReferences_ids:
  "\<exists>refs. extractEuReferences text = Returns refs \<and> (\<forall>r \<in> set refs. colons (euDocumentId r) = 1)"
proof -
  from extractEuReferences_firstPerPair[of "text"] obtain refs found where
    a: "extractEuReferences text = Returns refs" and c: "refs = firstPerPair found"
    and w: "\<forall>c \<in> set found. wfRef c" by blast
  have "\<forall>r \<in> set refs. r \<in> set found"
    unfolding c using firstPerPair_first by fastforce
  then show ?thesis using a w by (auto simp: wfRef_def)
qed

lemma insertProvisions_ok:
  "insertProvisions db d provs S = Returns res \<Longrightarrow>
     snd res = keysAfter d S (fst res) \<and> primaryRule d S (fst res)
     \<and> (\<forall>r \<in> set (fst res). document_id r = d \<and> colons (eu_document_id r) = 1)"
proof (induction provs arbitrary: S res)
  case Nil
  then show ?case by (auto simp: primaryRule_def keysAfter_Nil)
next
  case (Cons prov provs)
  from extractEuReferences_ids[of "content prov"]
  obtain refs where refs: "extractEuReferences (content prov) = Returns refs"
    and ids: "\<forall>r \<in> set refs. colons (euDocumentId r) = 1" by blast
  define src where "src = d @ js '':'' @ provision_ref prov"
  define here where "here = insertReferences d src refs S"
  from insertReferences_ok[of d S src refs]
  have h1: "primaryRule d S (fst here)" and h2: "snd here = keysAfter d S (fst here)"
    and h3: "\<forall>r \<in> set (fst here). document_id r = d \<and> eu_document_id r \<in> euDocumentId ` set refs"
    unfolding here_def by auto
  have h4: "\<forall>r \<in> set (fst here). document_id r = d \<and> colons (eu_document_id r) = 1"
    using h3 ids by auto
  have nr: "\<not> rejectsProvision db d prov"
    using Cons.prems by (auto split: if_splits)
  then have "andThen (insertProvisions db d provs (snd here))
                (\<lambda>later. Returns (fst here @ fst later, snd later)) = Returns res"
    using Cons.prems refs by (simp add: andThen_def Let_def here_def src_def)
  then obtain later where l: "insertProvisions db d provs (snd here) = Returns later"
    and res: "res = (fst here @ fst later, snd later)"
    unfolding andThen_Returns by auto
  from Cons.IH[OF l] have r1: "snd later = keysAfter d (snd here) (fst later)"
    and r2: "primaryRule d (snd here) (fst later)"
    and r3: "\<forall>r \<in> set (fst later). document_id r = d \<and> colons (eu_document_id r) = 1" by auto
  have k: "keysAfter d (snd here) (fst later) = keysAfter d S (fst here @ fst later)"
    unfolding h2 by (rule keysAfter_append)
  have f: "primaryRule d S (fst here @ fst later)"
    using primaryRule_append[OF h1] r2 h2 by simp
  show ?case unfolding res using r1 k f h4 r3 by auto
qed

lemma insertProvisions_returns:
  "\<forall>p \<in> set provs. \<not> rejectsProvision db d p \<Longrightarrow> \<exists>res. insertProvisions db d provs S = Returns res"
proof (induction provs arbitrary: S)
  case Nil
  show ?case by simp
next
  case (Cons prov provs)
  from extractEuReferences_ids[of "content prov"]
  obtain refs where refs: "extractEuReferences (content prov) = Returns refs" by blast
  define here where "here = insertReferences d (d @ js '':'' @ provision_ref prov) refs S"
  from Cons.IH[of "snd here"] Cons.prems
  obtain later where "insertProvisions db d provs (snd here) = Returns later" by auto
  then show ?case using Cons.prems refs by (simp add: andThen_def Let_def here_def)
qed

lemma loadDocument_ok:
  assumes "loadDocument db seed st = Returns (rows, st')"
  shows "seed_id seed \<notin> fst st \<and> fst st' = insert (seed_id seed) (fst st)
       \<and> snd st' = keysAfter (seed_id seed) (snd st) rows
       \<and> primaryRule (seed_id seed) (snd st) rows
       \<and> (\<forall>r \<in> set rows. document_id r = seed_id seed \<and> colons (eu_document_id r) = 1)"
proof -
  have n: "seed_id seed \<notin> fst st"
    using assms by (auto simp: loadDocument_def split: if_splits)
  have nr: "\<not> rejectsDocument db seed"
    using assms by (auto simp: loadDocument_def split: if_splits)
  show ?thesis
  proof (cases "seed_provisions seed")
    case None
    then show ?thesis using assms n nr
      by (auto simp: loadDocument_def primaryRule_def keysAfter_Nil)
  next
    case (Some provisions)
    show ?thesis
    proof (cases "length provisions = 0")
      case True
      then show ?thesis using assms n nr Some
        by (auto simp: loadDocument_def primaryRule_def keysAfter_Nil)
    next
      case False
      then have "andThen (insertProvisions db (seed_id seed) (fst (dedupeProvisions provisions)) (snd st))
                   (\<lambda>res. Returns (fst res, insert (seed_id seed) (fst st), snd res))
                 = Returns (rows, st')"
        using assms n nr Some by (simp add: loadDocument_def)
      then obtain res where
        r: "insertProvisions db (seed_id seed) (fst (dedupeProvisions provisions)) (snd st) = Returns res"
        and e: "rows = fst res" "st' = (insert (seed_id seed) (fst st), snd res)"
        unfolding andThen_Returns by auto
      from insertProvisions_ok[OF r] show ?thesis using n e by simp
    qed
  qed
qed

lemma loadDocument_returns:
  assumes "seed_id seed \<notin> fst st" and "\<not> rejectsDocument db seed"
    and "\<forall>p. \<not> rejectsProvision db (seed_id seed) p"
  shows "\<exists>res. loadDocument db seed st = Returns res"
proof (cases "seed_provisions seed")
  case None
  then show ?thesis using assms by (simp add: loadDocument_def)
next
  case (Some provisions)
  from insertProvisions_returns[of "fst (dedupeProvisions provisions)" db "seed_id seed" "snd st"]
    assms(3)
  obtain res where
    "insertProvisions db (seed_id seed) (fst (dedupeProvisions provisions)) (snd st) = Returns res"
    by auto
  then show ?thesis using assms Some by (simp add: loadDocument_def andThen_def)
qed

lemma fresh_key:
  assumes "keysOfDocuments st" and "d \<notin> fst st" and "colons e = 1"
  shows "primaryKeyOf d e \<notin> snd st"
proof
  assume "primaryKeyOf d e \<in> snd st"
  then obtain d' e' where "d' \<in> fst st" "colons e' = 1" "primaryKeyOf d e = primaryKeyOf d' e'"
    using assms(1) unfolding keysOfDocuments_def by blast
  then show False using primaryKeyOf_inj2[OF assms(3)] assms(2) by blast
qed

lemma document_rule:
  assumes k: "keysOfDocuments st" and d: "d \<notin> fst st" and p: "primaryRule d (snd st) rows"
    and w: "\<forall>r \<in> set rows. document_id r = d \<and> colons (eu_document_id r) = 1"
  shows "firstImplementsIsPrimary rows"
  unfolding firstImplementsIsPrimary_def
proof (intro allI impI)
  fix pre r post
  assume s: "rows = pre @ r # post"
  then have rw: "colons (eu_document_id r) = 1" and pd: "\<forall>q \<in> set pre. document_id q = document_id r"
    using w by auto
  have f: "primaryKeyOf d (eu_document_id r) \<notin> snd st" using fresh_key[OF k d rw] .
  have "is_primary_implementation r \<longleftrightarrow>
           reference_type r = js ''implements''
           \<and> primaryKeyOf d (eu_document_id r) \<notin> snd st
           \<and> (\<forall>q \<in> set pre. eu_document_id q = eu_document_id r
                 \<longrightarrow> reference_type q \<noteq> js ''implements'')"
    using p s unfolding primaryRule_def by blast
  then show "is_primary_implementation r \<longleftrightarrow>
           reference_type r = js ''implements''
           \<and> (\<forall>q \<in> set pre. document_id q = document_id r \<and> eu_document_id q = eu_document_id r
                 \<longrightarrow> reference_type q \<noteq> js ''implements'')"
    using f pd by auto
qed

lemma keysOfDocuments_step:
  assumes k: "keysOfDocuments st"
    and w: "\<forall>r \<in> set rows. colons (eu_document_id r) = 1"
  shows "keysOfDocuments (insert d (fst st), keysAfter d (snd st) rows)"
  unfolding keysOfDocuments_def
proof
  fix key assume "key \<in> snd (insert d (fst st), keysAfter d (snd st) rows)"
  then consider "key \<in> snd st"
    | q where "q \<in> set rows" "key = primaryKeyOf d (eu_document_id q)"
    by (auto simp: keysAfter_def)
  then show "\<exists>d' e. d' \<in> fst (insert d (fst st), keysAfter d (snd st) rows) \<and> colons e = 1
                 \<and> key = primaryKeyOf d' e"
  proof cases
    case 1
    then obtain d' e where "d' \<in> fst st" "colons e = 1" "key = primaryKeyOf d' e"
      using k unfolding keysOfDocuments_def by blast
    then show ?thesis by auto
  next
    case 2
    then have "colons (eu_document_id q) = 1" using w by blast
    then show ?thesis using 2 by auto
  qed
qed

lemma firstImplementsIsPrimary_append:
  assumes a: "firstImplementsIsPrimary r1" and b: "firstImplementsIsPrimary r2"
    and dis: "\<forall>q \<in> set r1. \<forall>r \<in> set r2. document_id q \<noteq> document_id r"
  shows "firstImplementsIsPrimary (r1 @ r2)"
  unfolding firstImplementsIsPrimary_def
proof (intro allI impI)
  fix pre r post
  assume split: "r1 @ r2 = pre @ r # post"
  from split consider u where "r1 = pre @ r # u" | u where "pre = r1 @ u" "r2 = u @ r # post"
    by (auto simp: append_eq_append_conv2 append_eq_Cons_conv Cons_eq_append_conv)
  then show "is_primary_implementation r \<longleftrightarrow>
           reference_type r = js ''implements''
           \<and> (\<forall>q \<in> set pre. document_id q = document_id r \<and> eu_document_id q = eu_document_id r
                 \<longrightarrow> reference_type q \<noteq> js ''implements'')"
  proof cases
    case 1
    then show ?thesis using a unfolding firstImplementsIsPrimary_def by blast
  next
    case 2
    have "is_primary_implementation r \<longleftrightarrow>
           reference_type r = js ''implements''
           \<and> (\<forall>q \<in> set u. document_id q = document_id r \<and> eu_document_id q = eu_document_id r
                 \<longrightarrow> reference_type q \<noteq> js ''implements'')"
      using b 2(2) unfolding firstImplementsIsPrimary_def by blast
    moreover have "\<forall>q \<in> set r1. document_id q \<noteq> document_id r" using dis 2(2) by auto
    ultimately show ?thesis unfolding 2(1) by auto
  qed
qed

lemma loadAll_ok:
  "keysOfDocuments st \<Longrightarrow> loadAll db seeds st = Returns (rows, st') \<Longrightarrow>
     firstImplementsIsPrimary rows \<and> (\<forall>r \<in> set rows. document_id r \<notin> fst st)
     \<and> distinct (map seed_id seeds) \<and> (\<forall>s \<in> set seeds. seed_id s \<notin> fst st)"
proof (induction seeds arbitrary: st rows st')
  case Nil
  then show ?case by (simp add: firstImplementsIsPrimary_def)
next
  case (Cons seed seeds)
  from Cons.prems(2) obtain here where h: "loadDocument db seed st = Returns here"
    and rest: "andThen (loadAll db seeds (snd here))
                 (\<lambda>later. Returns (fst here @ fst later, snd later)) = Returns (rows, st')"
    by (auto simp: andThen_Returns)
  from rest obtain later where l: "loadAll db seeds (snd here) = Returns later"
    and e: "rows = fst here @ fst later" "st' = snd later"
    by (auto simp: andThen_Returns)
  have h': "loadDocument db seed st = Returns (fst here, snd here)" using h by simp
  from loadDocument_ok[OF h'] have n: "seed_id seed \<notin> fst st"
    and d1: "fst (snd here) = insert (seed_id seed) (fst st)"
    and s1: "snd (snd here) = keysAfter (seed_id seed) (snd st) (fst here)"
    and p: "primaryRule (seed_id seed) (snd st) (fst here)"
    and w: "\<forall>r \<in> set (fst here). document_id r = seed_id seed \<and> colons (eu_document_id r) = 1"
    by auto
  have a: "firstImplementsIsPrimary (fst here)"
    using document_rule[OF Cons.prems(1) n p w] .
  have "keysOfDocuments (insert (seed_id seed) (fst st), keysAfter (seed_id seed) (snd st) (fst here))"
    using keysOfDocuments_step[OF Cons.prems(1)] w by blast
  then have k1: "keysOfDocuments (snd here)" using d1 s1 by (cases "snd here") simp
  have l': "loadAll db seeds (snd here) = Returns (fst later, snd later)" using l by simp
  from Cons.IH[OF k1 l'] have b: "firstImplementsIsPrimary (fst later)"
    and c: "\<forall>r \<in> set (fst later). document_id r \<notin> fst (snd here)"
    and dd: "distinct (map seed_id seeds)"
    and ee: "\<forall>s \<in> set seeds. seed_id s \<notin> fst (snd here)" by auto
  have dis: "\<forall>q \<in> set (fst here). \<forall>r \<in> set (fst later). document_id q \<noteq> document_id r"
    using w c d1 by auto
  have "firstImplementsIsPrimary (fst here @ fst later)"
    using firstImplementsIsPrimary_append[OF a b dis] .
  moreover have "\<forall>r \<in> set (fst here @ fst later). document_id r \<notin> fst st"
    using w n c d1 by auto
  moreover have "distinct (map seed_id (seed # seeds))" using dd ee d1 by auto
  moreover have "\<forall>s \<in> set (seed # seeds). seed_id s \<notin> fst st" using n ee d1 by auto
  ultimately show ?case unfolding e by blast
qed

lemma loadAll_returns:
  "distinct (map seed_id seeds) \<Longrightarrow>
   \<forall>s \<in> set seeds. seed_id s \<notin> fst st \<and> \<not> rejectsDocument db s
                    \<and> (\<forall>p. \<not> rejectsProvision db (seed_id s) p) \<Longrightarrow>
   \<exists>res. loadAll db seeds st = Returns res"
proof (induction seeds arbitrary: st)
  case Nil
  show ?case by simp
next
  case (Cons seed seeds)
  from loadDocument_returns[of seed st db] Cons.prems(2)
  obtain here where h: "loadDocument db seed st = Returns here" by auto
  have h': "loadDocument db seed st = Returns (fst here, snd here)" using h by simp
  from loadDocument_ok[OF h'] have d1: "fst (snd here) = insert (seed_id seed) (fst st)" by simp
  have ne: "\<forall>s \<in> set seeds. seed_id s \<noteq> seed_id seed"
  proof
    fix s assume "s \<in> set seeds"
    then have "seed_id s \<in> seed_id ` set seeds" by (rule imageI)
    moreover have "seed_id seed \<notin> seed_id ` set seeds" using Cons.prems(1) by simp
    ultimately show "seed_id s \<noteq> seed_id seed" by auto
  qed
  have "\<forall>s \<in> set seeds. seed_id s \<notin> fst (snd here) \<and> \<not> rejectsDocument db s
                    \<and> (\<forall>p. \<not> rejectsProvision db (seed_id s) p)"
    using Cons.prems(2) d1 ne by simp
  from Cons.IH[OF _ this] Cons.prems(1)
  obtain later where "loadAll db seeds (snd here) = Returns later" by auto
  then show ?case using h by (simp add: andThen_def)
qed

lemma implements_not_references: "js ''implements'' \<noteq> js ''references''"
  by (simp add: js_def)

lemma buildDatabase_ok:
  assumes "buildDatabase db seeds = Returns rows"
  shows "firstImplementsIsPrimary rows \<and> distinct (map seed_id seeds)"
proof -
  from assms obtain res where r: "loadAll db seeds ({}, {}) = Returns res" and e: "rows = fst res"
    unfolding buildDatabase_def andThen_Returns by auto
  have k: "keysOfDocuments ({}, {})" by (simp add: keysOfDocuments_def)
  have "loadAll db seeds ({}, {}) = Returns (rows, snd res)" using r e by simp
  from loadAll_ok[OF k this] show ?thesis by simp
qed

lemma example_build:
  "buildDatabase acceptingDb [exampleDocument, secondDocument] =
   Returns
    [\<lparr> source_id = js ''act-843-2012:s1'', document_id = js ''act-843-2012'',
        eu_document_id = js ''directive:1995/46'', eu_article = None,
        reference_type = js ''implements'',
        reference_context = js ''This Act implements EU Directive 95/46.'',
        full_citation = js ''Directive 95/46'', is_primary_implementation = True,
        implementation_status = js ''complete'' \<rparr>,
      \<lparr> source_id = js ''act-843-2012:s3'', document_id = js ''act-843-2012'',
        eu_document_id = js ''directive:1995/46'', eu_article = None,
        reference_type = js ''references'',
        reference_context = js ''See also EU Directive 95/46.'',
        full_citation = js ''Directive 95/46'', is_primary_implementation = False,
        implementation_status = js ''unknown'' \<rparr>,
      \<lparr> source_id = js ''act-772-2008:s1'', document_id = js ''act-772-2008'',
        eu_document_id = js ''directive:1995/46'', eu_article = None,
        reference_type = js ''implements'',
        reference_context = js ''This Act implements EU Directive 95/46.'',
        full_citation = js ''Directive 95/46'', is_primary_implementation = True,
        implementation_status = js ''complete'' \<rparr>]"
  by (simp add: extract_defs buildDatabase_def loadDocument_def exampleDocument_def
      secondDocument_def acceptingDb_def exampleSeed_def
      dedupeProvisions_def dedupeStep_def normalizeWhitespace_def pickPreferredProvision_def
      primaryKeyOf_def)

lemma example_single:
  "buildDatabase acceptingDb [exampleDocument] =
   Returns
    [\<lparr> source_id = js ''act-843-2012:s1'', document_id = js ''act-843-2012'',
        eu_document_id = js ''directive:1995/46'', eu_article = None,
        reference_type = js ''implements'',
        reference_context = js ''This Act implements EU Directive 95/46.'',
        full_citation = js ''Directive 95/46'', is_primary_implementation = True,
        implementation_status = js ''complete'' \<rparr>,
      \<lparr> source_id = js ''act-843-2012:s3'', document_id = js ''act-843-2012'',
        eu_document_id = js ''directive:1995/46'', eu_article = None,
        reference_type = js ''references'',
        reference_context = js ''See also EU Directive 95/46.'',
        full_citation = js ''Directive 95/46'', is_primary_implementation = False,
        implementation_status = js ''unknown'' \<rparr>]"
  by (simp add: extract_defs buildDatabase_def loadDocument_def exampleDocument_def
      acceptingDb_def exampleSeed_def
      dedupeProvisions_def dedupeStep_def normalizeWhitespace_def pickPreferredProvision_def
      primaryKeyOf_def)

text \<open>
  Claim C4. A build in which the identifiers of the seed files differ and the database
  rejects no row returns, and a build that returns had seed files of different
  identifiers. Among the rows of a build, in the order in which the provisions are scanned,
  a row is primary exactly when it is classified \<open>implements\<close> and no earlier row of the
  same document for the same instrument is classified \<open>implements\<close>: the first
  \<open>implements\<close> reference of a document to an instrument is primary and every later
  reference of that document to it is not. So a row classified \<open>references\<close> is never
  primary and two rows of one document for one instrument are never both primary. In the
  document of three provisions whose first provision implements Directive 95/46 and whose
  third mentions it, the row of the first provision alone is primary.
\<close>

theorem first_implements_reference_is_primary:
  "(distinct (map seed_id seeds)
      \<and> (\<forall>s \<in> set seeds. \<not> rejectsDocument db s \<and> (\<forall>p. \<not> rejectsProvision db (seed_id s) p))
     \<longrightarrow> (\<exists>rows. buildDatabase db seeds = Returns rows))
   \<and> (\<forall>rows. buildDatabase db seeds = Returns rows \<longrightarrow>
         distinct (map seed_id seeds)
       \<and> firstImplementsIsPrimary rows
       \<and> (\<forall>r \<in> set rows. reference_type r = js ''references'' \<longrightarrow> \<not> is_primary_implementation r)
       \<and> (\<forall>pre r mid r' post. rows = pre @ r # mid @ r' # post
              \<and> document_id r = document_id r' \<and> eu_document_id r = eu_document_id r'
              \<longrightarrow> \<not> (is_primary_implementation r \<and> is_primary_implementation r')))
   \<and> (\<exists>r1 r3. buildDatabase acceptingDb [exampleDocument] = Returns [r1, r3]
         \<and> source_id r1 = js ''act-843-2012:s1'' \<and> source_id r3 = js ''act-843-2012:s3''
         \<and> eu_document_id r1 = js ''directive:1995/46''
         \<and> eu_document_id r3 = js ''directive:1995/46''
         \<and> reference_type r1 = js ''implements'' \<and> reference_type r3 = js ''references''
         \<and> is_primary_implementation r1 \<and> \<not> is_primary_implementation r3)"
proof (intro conjI)
  show "distinct (map seed_id seeds)
      \<and> (\<forall>s \<in> set seeds. \<not> rejectsDocument db s \<and> (\<forall>p. \<not> rejectsProvision db (seed_id s) p))
     \<longrightarrow> (\<exists>rows. buildDatabase db seeds = Returns rows)"
  proof
    assume a: "distinct (map seed_id seeds)
      \<and> (\<forall>s \<in> set seeds. \<not> rejectsDocument db s \<and> (\<forall>p. \<not> rejectsProvision db (seed_id s) p))"
    then have "\<forall>s \<in> set seeds. seed_id s \<notin> fst ({} :: jsstring set, {} :: jsstring set)
                 \<and> \<not> rejectsDocument db s \<and> (\<forall>p. \<not> rejectsProvision db (seed_id s) p)"
      by simp
    from loadAll_returns[OF _ this] a obtain res where "loadAll db seeds ({}, {}) = Returns res"
      by blast
    then show "\<exists>rows. buildDatabase db seeds = Returns rows"
      by (simp add: buildDatabase_def andThen_def)
  qed
next
  show "\<forall>rows. buildDatabase db seeds = Returns rows \<longrightarrow>
         distinct (map seed_id seeds)
       \<and> firstImplementsIsPrimary rows
       \<and> (\<forall>r \<in> set rows. reference_type r = js ''references'' \<longrightarrow> \<not> is_primary_implementation r)
       \<and> (\<forall>pre r mid r' post. rows = pre @ r # mid @ r' # post
              \<and> document_id r = document_id r' \<and> eu_document_id r = eu_document_id r'
              \<longrightarrow> \<not> (is_primary_implementation r \<and> is_primary_implementation r'))"
  proof (intro allI impI)
    fix rows assume b: "buildDatabase db seeds = Returns rows"
    from buildDatabase_ok[OF b] have ok: "firstImplementsIsPrimary rows"
      and d: "distinct (map seed_id seeds)" by simp_all
    have refs: "\<forall>r \<in> set rows. reference_type r = js ''references'' \<longrightarrow> \<not> is_primary_implementation r"
    proof (intro ballI impI)
      fix r assume "r \<in> set rows" and t: "reference_type r = js ''references''"
      then obtain pre post where "rows = pre @ r # post" by (meson split_list)
      then have "is_primary_implementation r \<Longrightarrow> reference_type r = js ''implements''"
        using ok unfolding firstImplementsIsPrimary_def by blast
      then show "\<not> is_primary_implementation r" using t implements_not_references by auto
    qed
    have one: "\<forall>pre r mid r' post. rows = pre @ r # mid @ r' # post
              \<and> document_id r = document_id r' \<and> eu_document_id r = eu_document_id r'
              \<longrightarrow> \<not> (is_primary_implementation r \<and> is_primary_implementation r')"
    proof (intro allI impI notI)
      fix pre r mid r' post
      assume a: "rows = pre @ r # mid @ r' # post
              \<and> document_id r = document_id r' \<and> eu_document_id r = eu_document_id r'"
        and p: "is_primary_implementation r \<and> is_primary_implementation r'"
      have s1: "rows = pre @ r # (mid @ r' # post)" using a by simp
      have s2: "rows = (pre @ r # mid) @ r' # post" using a by simp
      from ok s1 p have i1: "reference_type r = js ''implements''"
        unfolding firstImplementsIsPrimary_def by blast
      from ok s2 p have "\<forall>q \<in> set (pre @ r # mid).
          document_id q = document_id r' \<and> eu_document_id q = eu_document_id r'
                 \<longrightarrow> reference_type q \<noteq> js ''implements''"
        unfolding firstImplementsIsPrimary_def by blast
      then show False using a i1 by simp
    qed
    show "distinct (map seed_id seeds)
       \<and> firstImplementsIsPrimary rows
       \<and> (\<forall>r \<in> set rows. reference_type r = js ''references'' \<longrightarrow> \<not> is_primary_implementation r)
       \<and> (\<forall>pre r mid r' post. rows = pre @ r # mid @ r' # post
              \<and> document_id r = document_id r' \<and> eu_document_id r = eu_document_id r'
              \<longrightarrow> \<not> (is_primary_implementation r \<and> is_primary_implementation r'))"
      using d ok refs one by blast
  qed
next
  show "\<exists>r1 r3. buildDatabase acceptingDb [exampleDocument] = Returns [r1, r3]
         \<and> source_id r1 = js ''act-843-2012:s1'' \<and> source_id r3 = js ''act-843-2012:s3''
         \<and> eu_document_id r1 = js ''directive:1995/46''
         \<and> eu_document_id r3 = js ''directive:1995/46''
         \<and> reference_type r1 = js ''implements'' \<and> reference_type r3 = js ''references''
         \<and> is_primary_implementation r1 \<and> \<not> is_primary_implementation r3"
    unfolding example_single by simp
qed

text \<open>
  Two documents that implement the same directive: the first \<open>implements\<close> row of each
  is primary, and the row of the third provision of the first document is not.
\<close>

theorem first_implements_reference_is_primary_witness:
  "\<exists>r1 r3 q1. buildDatabase acceptingDb [exampleDocument, secondDocument] = Returns [r1, r3, q1]
      \<and> document_id r1 = js ''act-843-2012'' \<and> document_id r3 = js ''act-843-2012''
      \<and> document_id q1 = js ''act-772-2008''
      \<and> eu_document_id r1 = js ''directive:1995/46'' \<and> eu_document_id r3 = js ''directive:1995/46''
      \<and> eu_document_id q1 = js ''directive:1995/46''
      \<and> is_primary_implementation r1 \<and> \<not> is_primary_implementation r3
      \<and> is_primary_implementation q1
      \<and> firstImplementsIsPrimary [r1, r3, q1]"
proof -
  have "\<forall>rows. buildDatabase acceptingDb [exampleDocument, secondDocument] = Returns rows
          \<longrightarrow> firstImplementsIsPrimary rows"
    using first_implements_reference_is_primary[of "[exampleDocument, secondDocument]" acceptingDb]
    by blast
  then show ?thesis unfolding example_build by simp
qed

section \<open>Properties of the document parser\<close>

lemmas parser_defs = pat_defs flags_i_def flags_none_def flags_s_def canon_def isDigit_def
  isWhiteSpace_def isLineTerminator_def swapCase_def isWordChar_def atWordBoundary_def noCaps_def
  consumed_def regexMatch_def regexTest_def regexSearch_def removeFirstMatch_def js_def mkMatch_def
  rmatch.simps execLoop.simps execAll_def andThen_def trim_def trimStart_def trimEnd_def
  normalizeWhitespace_def collapseWhitespace.simps strU_def strOrEmpty_def truthyStr_def
  truthyOr_def subsectionPart_def Let_def
  SEC_ID_def LEADING_NUMBER_def PART_HEADING_def CHAPTER_HEADING_def INTERPRETATION_def
  DEF_PATTERN_def SECTION_PATTERN_def TITLE_END_def
  aknSection_def strategyAkn_def definitionBody_def extractDefinitionsFromContent_def
  regexSectionBody_def strategyRegex_def strategyToc_def tocSection_def

text \<open>
  The two patterns that drive a loop match no empty string, and the groups whose captures
  the loop bodies call \<open>trim\<close> on take part in every match.
\<close>

lemma DEF_PATTERN_shape:
  "nonnull DEF_PATTERN \<and> groupsNonnull 1 DEF_PATTERN \<and> setsGroup 1 DEF_PATTERN
     \<and> groupsNonnull 2 DEF_PATTERN \<and> setsGroup 2 DEF_PATTERN"
  by (simp add: DEF_PATTERN_def pat_defs)

lemma SECTION_PATTERN_shape:
  "nonnull SECTION_PATTERN \<and> groupsNonnull 2 SECTION_PATTERN \<and> setsGroup 2 SECTION_PATTERN"
  by (simp add: SECTION_PATTERN_def pat_defs)

lemma extractDefinitionsFromContent_returns:
  "\<exists>defs'. extractDefinitionsFromContent cont defs sourceProvision = Returns defs'"
proof -
  have body: "\<exists>st'. definitionBody sourceProvision m st = Returns st' \<and> True"
    if "isMatchOf flags_i DEF_PATTERN m" for m st
  proof -
    from isMatchOf_group[OF that, of 1] DEF_PATTERN_shape
    obtain t where t: "m_groups m 1 = Some t" by auto
    from isMatchOf_group[OF that, of 2] DEF_PATTERN_shape
    obtain d where d: "m_groups m 2 = Some d" by auto
    show ?thesis using t d by (simp add: definitionBody_def)
  qed
  have "\<exists>st'. execLoop flags_i DEF_PATTERN (definitionBody sourceProvision) None cont 0 defs
          = Returns st' \<and> True"
    by (rule execLoop_invariant[where I = "\<lambda>_. True"]) (use DEF_PATTERN_shape body in auto)
  then show ?thesis by (simp add: extractDefinitionsFromContent_def execAll_def)
qed

lemma aknSection_returns: "\<exists>st'. aknSection sec st = Returns st'"
proof -
  have ret: "\<exists>st'. andThen (extractDefinitionsFromContent cont defs sp) (\<lambda>defs. Returns (g defs))
               = Returns st'" for cont defs sp and g :: "ParsedDefinition list \<Rightarrow> AknState"
    using extractDefinitionsFromContent_returns[of cont defs sp] by (auto simp: andThen_def)
  show ?thesis
    unfolding aknSection_def Let_def
    by (auto split: option.splits simp: ret)
qed

lemma aknSections_returns: "\<exists>st'. aknSections secs st = Returns st'"
proof (induction secs arbitrary: st)
  case Nil
  show ?case by simp
next
  case (Cons sec secs)
  from aknSection_returns[of sec st] obtain st1 where "aknSection sec st = Returns st1" by blast
  then show ?case using Cons[of st1] by (simp add: andThen_def)
qed

lemma strategyAkn_returns: "\<exists>st. strategyAkn page = Returns st"
  unfolding strategyAkn_def by (rule aknSections_returns)

lemma strategyRegex_returns: "\<exists>ps. strategyRegex page = Returns ps"
proof -
  have body: "\<exists>st'. regexSectionBody m st = Returns st' \<and> True"
    if "isMatchOf flags_s SECTION_PATTERN m" for m st
  proof -
    from isMatchOf_group[OF that, of 2] SECTION_PATTERN_shape
    obtain b where b: "m_groups m 2 = Some b" by auto
    show ?thesis by (simp add: regexSectionBody_def b Let_def)
  qed
  have "\<exists>st'. execLoop flags_s SECTION_PATTERN regexSectionBody None (page_body page) 0 []
          = Returns st' \<and> True"
    by (rule execLoop_invariant[where I = "\<lambda>_. True"]) (use SECTION_PATTERN_shape body in auto)
  then show ?thesis by (simp add: strategyRegex_def execAll_def)
qed

text \<open>The strategies on the example pages.\<close>

lemma aknPage_strategies:
  "strategyAkn aknPage = Returns
     \<lparr> st_provisions =
         [\<lparr> pp_provision_ref = js ''s1'', pp_part = Some (js ''PART I''), pp_chapter = None,
            pp_section = Some (js ''1''), pp_title = js ''Interpretation'',
            pp_content = js ''\"data\" means information;'' \<rparr>],
       st_definitions =
         [\<lparr> def_term = js ''data'', def_definition = js ''information'',
            def_source_provision = Some (js ''s1'') \<rparr>],
       st_currentPart = Some (js ''PART I''), st_currentChapter = None \<rparr>
   \<and> strategyRegex aknPage = Returns
     [\<lparr> pp_provision_ref = js ''s1'', pp_part = None, pp_chapter = None,
        pp_section = Some (js ''1''), pp_title = js ''Interpretation'',
        pp_content = js ''\"data\" means information;'' \<rparr>]"
  by (simp add: aknPage_def parser_defs)

lemma tocPage_strategies:
  "strategyAkn tocPage = Returns \<lparr> st_provisions = [], st_definitions = [],
      st_currentPart = None, st_currentChapter = None \<rparr>
   \<and> strategyToc tocPage =
     [\<lparr> pp_provision_ref = js ''s2'', pp_part = None, pp_chapter = None,
        pp_section = Some (js ''2''), pp_title = js ''Scope'',
        pp_content = js ''This Act applies.'' \<rparr>]
   \<and> strategyRegex tocPage = Returns
     [\<lparr> pp_provision_ref = js ''s9'', pp_part = None, pp_chapter = None,
        pp_section = Some (js ''9''), pp_title = js ''Title'', pp_content = js ''Body'' \<rparr>]"
  by (simp add: tocPage_def parser_defs)

lemma plainPage_strategies:
  "strategyAkn plainPage = Returns \<lparr> st_provisions = [], st_definitions = [],
      st_currentPart = None, st_currentChapter = None \<rparr>
   \<and> strategyToc plainPage = []
   \<and> strategyRegex plainPage = Returns
     [\<lparr> pp_provision_ref = js ''s1'', pp_part = None, pp_chapter = None,
        pp_section = Some (js ''1''), pp_title = js ''Title'', pp_content = js ''Body'' \<rparr>]"
  by (simp add: plainPage_def parser_defs)

lemma emptyPage_strategies:
  "strategyAkn emptyPage = Returns \<lparr> st_provisions = [], st_definitions = [],
      st_currentPart = None, st_currentChapter = None \<rparr>
   \<and> strategyToc emptyPage = [] \<and> strategyRegex emptyPage = Returns []"
  by (simp add: emptyPage_def parser_defs)

text \<open>
  Claim C6. \<open>parseActContent\<close> returns a \<open>ParsedAct\<close> for every page, every year,
  number and fallback title: it neither raises nor runs for ever. The three strategies are
  entered in the order AKN markup, table of contents, regular expression over the text of
  the body; the table of contents is entered only when the AKN markup gave no provision,
  and the regular expression only when neither gave one. The provisions returned are those
  of the first strategy that gives at least one, and those of the last one, which may be
  none, when no strategy does.
\<close>

theorem parseActContent_strategy_order:
  "\<exists>st fromRegex act steps.
      strategyAkn page = Returns st \<and> strategyRegex page = Returns fromRegex
    \<and> parseActContentSteps upperFixed page yr actNumber actTitle = Returns (act, steps)
    \<and> parseActContent upperFixed page yr actNumber actTitle = Returns act
    \<and> steps = (if st_provisions st \<noteq> [] then [AknMarkup]
               else if strategyToc page \<noteq> [] then [AknMarkup, TocJson]
               else [AknMarkup, TocJson, RegexFallback])
    \<and> act_provisions act = (if st_provisions st \<noteq> [] then st_provisions st
               else if strategyToc page \<noteq> [] then strategyToc page
               else fromRegex)"
proof -
  obtain st where st: "strategyAkn page = Returns st" using strategyAkn_returns by blast
  obtain ps where ps: "strategyRegex page = Returns ps" using strategyRegex_returns by blast
  show ?thesis
    by (simp add: parseActContent_def parseActContentSteps_def st ps andThen_def Let_def)
qed

text \<open>
  On the page with a table of contents the result is the one provision the walk pushed
  before the \<open>null\<close> entry cut it, and the text of the body, in which the third strategy
  would find a section 9, is not read.
\<close>

theorem parseActContent_strategy_order_witness:
  "\<exists>act. parseActContentSteps (\<lambda>c. True) tocPage (Num 2020) (Num 7) (js ''An Act'')
            = Returns (act, [AknMarkup, TocJson])
     \<and> parseActContent (\<lambda>c. True) tocPage (Num 2020) (Num 7) (js ''An Act'') = Returns act
     \<and> act_provisions act =
         [\<lparr> pp_provision_ref = js ''s2'', pp_part = None, pp_chapter = None,
            pp_section = Some (js ''2''), pp_title = js ''Scope'',
            pp_content = js ''This Act applies.'' \<rparr>]"
  using parseActContent_strategy_order[where page = tocPage and upperFixed = "\<lambda>c. True"
      and yr = "Num 2020" and actNumber = "Num 7" and actTitle = "js ''An Act''"]
    tocPage_strategies
  by auto

end
